theory Spec2Isabelle
  imports Main "HOL-Library.AList"
begin

section \<open>The document\<close>

text \<open>
  The script \<^verbatim>\<open>assets/universal-ajax-cart.js\<close> works on the page's element tree.
  An element carries an identity (\<open>nid\<close>, what a JavaScript reference to the node
  denotes), its tag, its content attributes in order, its inline style declarations
  (the parsed \<^verbatim>\<open>style\<close> attribute: property, value, important flag; \<open>None\<close> when
  the element has no \<^verbatim>\<open>style\<close> attribute), its own character data and its child
  elements in document order.
\<close>

type_synonym css = "(string \<times> string \<times> bool) list"

datatype node =
  Element (nid: nat) (tag: string) (attrs: "(string \<times> string) list")
    (style: "css option") (chars: string) (kids: "node list")

text \<open>Pre-order (document order) traversal; \<open>walk\<close> pairs every element with its
  ancestors, nearest first.\<close>

fun elems :: "node \<Rightarrow> node list" where
  "elems (Element i t a s x ks) = Element i t a s x ks # concat (map elems ks)"

fun walk :: "node list \<Rightarrow> node \<Rightarrow> (node list \<times> node) list" where
  "walk anc (Element i t a s x ks) =
     (anc, Element i t a s x ks) # concat (map (walk (Element i t a s x ks # anc)) ks)"

subsection \<open>Selectors\<close>

text \<open>The selectors the script uses: compounds of type, attribute-presence,
  attribute-value and class selectors, alone or under one descendant combinator.\<close>

datatype simple = Tag string | HasAttr string | AttrEq string string | Class string

type_synonym compound = "simple list"

datatype selector = Sel compound | Desc compound compound

text \<open>The tokens of a \<^verbatim>\<open>class\<close> attribute value: split on HTML's ASCII whitespace
  (tab, line feed, form feed, carriage return, space).\<close>

definition is_html_space :: "char \<Rightarrow> bool" where
  "is_html_space c = (c \<in> set [CHR 0x09, CHR 0x0A, CHR 0x0C, CHR 0x0D, CHR 0x20])"

fun split_ws :: "string \<Rightarrow> string \<Rightarrow> string list" where
  "split_ws cur [] = (if cur = [] then [] else [cur])"
| "split_ws cur (c # cs) =
     (if is_html_space c then (if cur = [] then split_ws [] cs else cur # split_ws [] cs)
      else split_ws (cur @ [c]) cs)"

definition getAttribute :: "node \<Rightarrow> string \<Rightarrow> string option" where
  "getAttribute e n = map_of (attrs e) n"

definition classList :: "node \<Rightarrow> string list" where
  "classList e = (case getAttribute e ''class'' of None \<Rightarrow> [] | Some v \<Rightarrow> split_ws [] v)"

fun matches_simple :: "simple \<Rightarrow> node \<Rightarrow> bool" where
  "matches_simple (Tag t) e = (tag e = t)"
| "matches_simple (HasAttr n) e = (getAttribute e n \<noteq> None)"
| "matches_simple (AttrEq n v) e = (getAttribute e n = Some v)"
| "matches_simple (Class c) e = (c \<in> set (classList e))"

definition matches_compound :: "compound \<Rightarrow> node \<Rightarrow> bool" where
  "matches_compound c e = list_all (\<lambda>s. matches_simple s e) c"

fun matches :: "selector \<Rightarrow> node list \<times> node \<Rightarrow> bool" where
  "matches (Sel c) (anc, e) = matches_compound c e"
| "matches (Desc a c) (anc, e) = (matches_compound c e \<and> list_ex (matches_compound a) anc)"

text \<open>\<^verbatim>\<open>document.querySelectorAll\<close> and \<^verbatim>\<open>document.querySelector\<close> on the tree
  rooted at \<open>d\<close>.\<close>

definition querySelectorAll :: "selector \<Rightarrow> node \<Rightarrow> node list" where
  "querySelectorAll sel d = map snd (filter (matches sel) (walk [] d))"

definition querySelector :: "selector \<Rightarrow> node \<Rightarrow> node option" where
  "querySelector sel d = map_option snd (find (matches sel) (walk [] d))"

text \<open>\<^verbatim>\<open>element.querySelector\<close> with a compound selector: the first proper descendant
  of \<open>e\<close> that matches.\<close>

definition element_querySelector :: "compound \<Rightarrow> node \<Rightarrow> node option" where
  "element_querySelector c e = find (matches_compound c) (concat (map elems (kids e)))"

text \<open>\<^verbatim>\<open>element.closest\<close> with a compound selector: the nearest inclusive ancestor, in
  the document \<open>d\<close>, of the element that \<open>e\<close> refers to.\<close>

definition closest :: "compound \<Rightarrow> node \<Rightarrow> node \<Rightarrow> node option" where
  "closest c d e =
     (case find (\<lambda>(anc, x). nid x = nid e) (walk [] d) of
        None \<Rightarrow> None
      | Some (anc, x) \<Rightarrow> find (matches_compound c) (x # anc))"

subsection \<open>Mutation\<close>

text \<open>\<open>update_node i f d\<close> applies \<open>f\<close> to the element with identity \<open>i\<close>, in place:
  what a write through a JavaScript reference to that node does to the tree. On a page
  whose identities are pairwise distinct this is one element.\<close>

fun update_node :: "nat \<Rightarrow> (node \<Rightarrow> node) \<Rightarrow> node \<Rightarrow> node" where
  "update_node i f (Element j t a s x ks) =
     (let e = Element j t a s x (map (update_node i f) ks) in if i = j then f e else e)"

fun setAttribute :: "string \<Rightarrow> string \<Rightarrow> node \<Rightarrow> node" where
  "setAttribute n v (Element i t a s x ks) = Element i t (AList.update n v a) s x ks"

fun removeAttribute :: "string \<Rightarrow> node \<Rightarrow> node" where
  "removeAttribute n (Element i t a s x ks) = Element i t (AList.delete n a) s x ks"

text \<open>\<^verbatim>\<open>element.style.cssText = ...\<close> replaces the declarations; \<^verbatim>\<open>element.style.p = v\<close>
  sets one declaration, not important.\<close>

fun set_cssText :: "css \<Rightarrow> node \<Rightarrow> node" where
  "set_cssText ds (Element i t a s x ks) = Element i t a (Some ds) x ks"

fun set_style_property :: "string \<Rightarrow> string \<Rightarrow> node \<Rightarrow> node" where
  "set_style_property p v (Element i t a s x ks) =
     Element i t a (Some (AList.update p (v, False) (case s of None \<Rightarrow> [] | Some ds \<Rightarrow> ds))) x ks"

definition style_property :: "node \<Rightarrow> string \<Rightarrow> string option" where
  "style_property e p =
     (case style e of None \<Rightarrow> None | Some ds \<Rightarrow> map_option fst (map_of ds p))"

text \<open>\<^verbatim>\<open>element.textContent = s\<close> removes every child and leaves the text \<open>s\<close>.\<close>

fun set_textContent :: "string \<Rightarrow> node \<Rightarrow> node" where
  "set_textContent str (Element i t a s x ks) = Element i t a s str []"

fun appendChild :: "node \<Rightarrow> node \<Rightarrow> node" where
  "appendChild c (Element i t a s x ks) = Element i t a s x (ks @ [c])"

text \<open>\<^verbatim>\<open>button.disabled = b\<close> reflects the boolean content attribute \<^verbatim>\<open>disabled\<close>.\<close>

definition set_disabled :: "bool \<Rightarrow> node \<Rightarrow> node" where
  "set_disabled b e = (if b then setAttribute ''disabled'' '''' e else removeAttribute ''disabled'' e)"

definition disabled :: "node \<Rightarrow> bool" where
  "disabled e = (getAttribute e ''disabled'' \<noteq> None)"

text \<open>The element a reference \<open>i\<close> denotes in the document \<open>d\<close>.\<close>

definition node_of :: "nat \<Rightarrow> node \<Rightarrow> node option" where
  "node_of i d = find (\<lambda>e. nid e = i) (elems d)"

section \<open>The page and the script's effects on it\<close>

text \<open>What the script's \<^verbatim>\<open>catch\<close> blocks receive: \<open>MutationFailed\<close> is the
  \<^verbatim>\<open>Error('Failed to add to cart')\<close> that \<^verbatim>\<open>addToCart\<close> throws on a non-success status,
  \<open>NetworkFailure\<close> a rejected \<^verbatim>\<open>fetch\<close>, \<open>ParseFailure\<close> a rejected
  \<^verbatim>\<open>response.json()\<close> or a body on which the property read fails.\<close>

datatype error = MutationFailed | NetworkFailure | ParseFailure

text \<open>The body of the add-item request, \<^verbatim>\<open>{id: variantId, quantity: parseInt(quantity)}\<close>;
  a quantity \<open>None\<close> is \<^verbatim>\<open>NaN\<close>, which \<^verbatim>\<open>JSON.stringify\<close> writes as \<^verbatim>\<open>null\<close>.\<close>

datatype request =
    PostJson string "(string \<times> string) list" string "int option"
  | Get string

datatype callback = ResetQuickAdd nat nat

datatype effect =
    Fetch request
  | ConsoleError string "error option"
  | Click nat
  | SetTimeout callback nat

text \<open>
  \<open>document\<close> is the page's element tree, \<open>next_id\<close> the next unused node identity,
  \<open>body_overflow\<close> the \<^verbatim>\<open>overflow\<close> declaration of \<^verbatim>\<open>document.body.style\<close>,
  \<open>origin\<close> is \<^verbatim>\<open>window.location.origin\<close>, and \<open>effects\<close> lists, oldest first, what
  the script did to the world outside the tree: requests, console lines, synthetic
  \<^verbatim>\<open>click()\<close> activations and timers.
\<close>

record world =
  document :: node
  next_id :: nat
  body_overflow :: string
  origin :: string
  effects :: "effect list"

definition mutate :: "nat \<Rightarrow> (node \<Rightarrow> node) \<Rightarrow> world \<Rightarrow> world" where
  "mutate i f w = w\<lparr>document := update_node i f (document w)\<rparr>"

definition emit :: "effect \<Rightarrow> world \<Rightarrow> world" where
  "emit x w = w\<lparr>effects := effects w @ [x]\<rparr>"

definition click :: "node \<Rightarrow> world \<Rightarrow> world" where
  "click e w = emit (Click (nid e)) w"

section \<open>JavaScript values\<close>

text \<open>\<^verbatim>\<open>String(n)\<close> for an integral number \<open>n\<close>.\<close>

fun show_nat :: "nat \<Rightarrow> string" where
  "show_nat n =
     (if n < 10 then [char_of (48 + n)] else show_nat (n div 10) @ [char_of (48 + n mod 10)])"

declare show_nat.simps [simp del]

definition show_int :: "int \<Rightarrow> string" where
  "show_int k = (if k < 0 then CHR ''-'' # show_nat (nat (- k)) else show_nat (nat k))"

text \<open>
  \<^verbatim>\<open>parseInt(string)\<close> with no radix: leading white space is skipped, a sign is read,
  a \<^verbatim>\<open>0x\<close> or \<^verbatim>\<open>0X\<close> prefix selects radix 16 (radix 10 otherwise), and the longest
  prefix of digits is the value; with no digit the result is \<^verbatim>\<open>NaN\<close> (\<open>None\<close>).
  Strings are ASCII here, and the value is the exact integer (what the JavaScript number
  is below \<open>2 ^ 53\<close>).
\<close>

definition is_js_space :: "char \<Rightarrow> bool" where
  "is_js_space c = (c \<in> set [CHR 0x09, CHR 0x0A, CHR 0x0B, CHR 0x0C, CHR 0x0D, CHR 0x20])"

definition digit_val :: "nat \<Rightarrow> char \<Rightarrow> nat option" where
  "digit_val r c =
     (let n = (of_char c :: nat);
          d = (if 48 \<le> n \<and> n \<le> 57 then Some (n - 48)
               else if 97 \<le> n \<and> n \<le> 122 then Some (n - 87)
               else if 65 \<le> n \<and> n \<le> 90 then Some (n - 55)
               else None)
      in case d of None \<Rightarrow> None | Some v \<Rightarrow> if v < r then Some v else None)"

definition digits_value :: "nat \<Rightarrow> string \<Rightarrow> nat" where
  "digits_value r z = foldl (\<lambda>acc c. acc * r + (case digit_val r c of None \<Rightarrow> 0 | Some v \<Rightarrow> v)) 0 z"

definition parseInt_string :: "string \<Rightarrow> int option" where
  "parseInt_string inputString =
     (let s1 = dropWhile is_js_space inputString;
          sign = (if s1 \<noteq> [] \<and> hd s1 = CHR ''-'' then - 1 else 1 :: int);
          s2 = (if s1 \<noteq> [] \<and> (hd s1 = CHR ''+'' \<or> hd s1 = CHR ''-'') then tl s1 else s1);
          hex = (take 2 s2 = ''0x'' \<or> take 2 s2 = ''0X'');
          r = (if hex then 16 else 10);
          s3 = (if hex then drop 2 s2 else s2);
          z = takeWhile (\<lambda>c. digit_val r c \<noteq> None) s3
      in if z = [] then None else Some (sign * int (digits_value r z)))"

text \<open>The quantity argument of \<^verbatim>\<open>addToCart\<close> is a form-field string or the number 1.\<close>

datatype jsval = Str string | Num int

fun parseInt :: "jsval \<Rightarrow> int option" where
  "parseInt (Str s) = parseInt_string s"
| "parseInt (Num n) = parseInt_string (show_int n)"


section \<open>Drawer visibility: \<^verbatim>\<open>openCartDrawer\<close>\<close>

text \<open>Method 1 looks for the drawer: the nearest \<^verbatim>\<open>[data-drawer]\<close> around the first
  \<^verbatim>\<open>[data-drawer-view="cart-drawer"]\<close>.\<close>

definition drawer_of :: "node \<Rightarrow> node option" where
  "drawer_of d =
     (case querySelector (Sel [AttrEq ''data-drawer-view'' ''cart-drawer'']) d of
        None \<Rightarrow> None
      | Some drawerView \<Rightarrow> closest [HasAttr ''data-drawer''] d drawerView)"

definition openCartDrawer :: "world \<Rightarrow> world" where
  "openCartDrawer w =
     (case drawer_of (document w) of
        Some drawer \<Rightarrow>
          (mutate (nid drawer) (setAttribute ''data-drawer-open'' ''true'') w)\<lparr>body_overflow := ''hidden''\<rparr>
      | None \<Rightarrow>
          (case querySelector (Sel [HasAttr ''data-cart-drawer-trigger'']) (document w) of
             Some cartTrigger \<Rightarrow> click cartTrigger w
           | None \<Rightarrow>
               (case querySelector (Desc [Class ''header--cart''] [Tag ''a'']) (document w) of
                  Some headerCartLink \<Rightarrow> click headerCartLink w
                | None \<Rightarrow> w)))"

section \<open>Cart state: \<^verbatim>\<open>updateCartCount\<close>\<close>

definition badge_cssText :: css where
  "badge_cssText =
     [(''position'', ''absolute'', True), (''top'', ''-8px'', True), (''right'', ''-8px'', True),
      (''background-color'', ''#d32f2f'', True), (''color'', ''white'', True),
      (''border-radius'', ''50%'', True), (''min-width'', ''18px'', True),
      (''height'', ''18px'', True), (''display'', ''flex'', True),
      (''align-items'', ''center'', True), (''justify-content'', ''center'', True),
      (''font-size'', ''11px'', True), (''font-weight'', ''bold'', True),
      (''z-index'', ''100'', True)]"

text \<open>\<^verbatim>\<open>document.createElement('span')\<close> with the class name and the inline style set.\<close>

definition new_badge :: "nat \<Rightarrow> node" where
  "new_badge i =
     set_cssText badge_cssText
       (setAttribute ''class'' ''cart-count-badge'' (Element i ''span'' [] None [] []))"

definition updateCartCount :: "int \<Rightarrow> world \<Rightarrow> world" where
  "updateCartCount count w =
     (let cartElements = querySelectorAll (Sel [HasAttr ''data-cart-count'']) (document w);
          w1 = foldl (\<lambda>w' element.
                  mutate (nid element) (setAttribute ''data-cart-count'' (show_int count)) w')
                 w cartElements
      in case querySelector (Sel [Class ''header--cart'']) (document w1) of
           None \<Rightarrow> w1
         | Some headerCart \<Rightarrow>
             (let (badge, w2) =
                   (case element_querySelector [Class ''cart-count-badge''] headerCart of
                      Some b \<Rightarrow> (nid b, w1)
                    | None \<Rightarrow>
                        (next_id w1,
                         (mutate (nid headerCart) (appendChild (new_badge (next_id w1))) w1)
                           \<lparr>next_id := Suc (next_id w1)\<rparr>))
              in if count > 0
                 then mutate badge (set_style_property ''display'' ''flex'')
                        (mutate badge (set_textContent (show_int count)) w2)
                 else mutate badge (set_style_property ''display'' ''none'') w2))"

section \<open>Drawer content: \<^verbatim>\<open>refreshAndOpenCartDrawer\<close>\<close>

text \<open>
  What a \<^verbatim>\<open>fetch\<close> followed by \<^verbatim>\<open>response.json()\<close> delivers: the request is
  rejected, or a response arrives with its \<^verbatim>\<open>ok\<close> flag and a body that parses
  (\<open>Some\<close>) or does not (\<open>None\<close>).
\<close>

datatype 'a response = Rejected | Response bool "'a option"

text \<open>The entry \<^verbatim>\<open>data['cart-drawer']\<close> of the sections response: \<open>None\<close> when it is
  missing or empty, else the document \<^verbatim>\<open>DOMParser\<close> builds from it.\<close>

type_synonym sections = "node option"

text \<open>Assigning \<^verbatim>\<open>innerHTML\<close> builds new nodes: the copies get unused identities.\<close>

fun shift_ids :: "nat \<Rightarrow> node \<Rightarrow> node" where
  "shift_ids k (Element i t a s x ks) = Element (k + i) t a s x (map (shift_ids k) ks)"

definition id_bound :: "node list \<Rightarrow> nat" where
  "id_bound ks = fold max (map (\<lambda>e. Suc (nid e)) (concat (map elems ks))) 0"

fun set_innerHTML :: "nat \<Rightarrow> node \<Rightarrow> node \<Rightarrow> node" where
  "set_innerHTML k src (Element i t a s x ks) =
     Element i t a s (chars src) (map (shift_ids k) (kids src))"

text \<open>The merge step of \<^verbatim>\<open>refreshAndOpenCartDrawer\<close> (the body of its inner
  \<^verbatim>\<open>if (newCartElement && currentCartElement)\<close>).\<close>

definition mergeCartElement :: "node \<Rightarrow> node \<Rightarrow> world \<Rightarrow> world" where
  "mergeCartElement newCartElement currentCartElement w =
     (let w1 = (mutate (nid currentCartElement) (set_innerHTML (next_id w) newCartElement) w)
                 \<lparr>next_id := next_id w + id_bound (kids newCartElement)\<rparr>;
          w2 = foldl (\<lambda>w' (name, val). mutate (nid currentCartElement) (setAttribute name val) w')
                 w1 (attrs newCartElement)
      in case style newCartElement of
           None \<Rightarrow> w2
         | Some ds \<Rightarrow> mutate (nid currentCartElement) (set_cssText ds) w2)"

definition refreshAndOpenCartDrawer :: "sections response \<Rightarrow> world \<Rightarrow> world" where
  "refreshAndOpenCartDrawer resp w =
     (let w1 = emit (Fetch (Get (origin w @ ''/?sections=cart-drawer''))) w
      in case resp of
           Rejected \<Rightarrow> emit (ConsoleError ''Error refreshing cart:'' (Some NetworkFailure)) w1
         | Response ok None \<Rightarrow> emit (ConsoleError ''Error refreshing cart:'' (Some ParseFailure)) w1
         | Response ok (Some cartDrawerHTML) \<Rightarrow>
             openCartDrawer
               (case cartDrawerHTML of
                  None \<Rightarrow> w1
                | Some doc \<Rightarrow>
                    (case (querySelector (Sel [Tag ''cart-element'']) doc,
                           querySelector (Desc [AttrEq ''data-drawer-view'' ''cart-drawer'']
                                            [Tag ''cart-element'']) (document w1)) of
                       (Some newCartElement, Some currentCartElement) \<Rightarrow>
                         mergeCartElement newCartElement currentCartElement w1
                     | _ \<Rightarrow> w1)))"

section \<open>Cart mutation: \<^verbatim>\<open>addToCart\<close>\<close>

text \<open>The answers of the three endpoints to one run of the pipeline.\<close>

record env =
  add_response :: "unit response"
  cart_response :: "int response"
  sections_response :: "sections response"

text \<open>The add-item request: \<^verbatim>\<open>fetch('/cart/add.js', {method: 'POST', headers, body})\<close>.\<close>

abbreviation add_request :: "string \<Rightarrow> int option \<Rightarrow> effect" where
  "add_request variantId quantity \<equiv>
     Fetch (PostJson ''/cart/add.js''
              [(''Content-Type'', ''application/json''), (''X-Requested-With'', ''XMLHttpRequest'')]
              variantId quantity)"

text \<open>The result is the error the call rejects with, if any, and the world it leaves.\<close>

definition addToCart :: "env \<Rightarrow> string \<Rightarrow> jsval \<Rightarrow> world \<Rightarrow> error option \<times> world" where
  "addToCart env variantId quantity w =
     (let w1 = emit (add_request variantId (parseInt quantity)) w;
          rethrow = (\<lambda>err w'. (Some err, emit (ConsoleError ''Add to cart error:'' (Some err)) w'))
      in case add_response env of
           Rejected \<Rightarrow> rethrow NetworkFailure w1
         | Response ok body \<Rightarrow>
             if \<not> ok then rethrow MutationFailed w1
             else (case body of
                None \<Rightarrow> rethrow ParseFailure w1
              | Some _ \<Rightarrow>
                  (let w2 = emit (Fetch (Get ''/cart.js'')) w1
                   in case cart_response env of
                        Rejected \<Rightarrow> rethrow NetworkFailure w2
                      | Response ok' None \<Rightarrow> rethrow ParseFailure w2
                      | Response ok' (Some item_count) \<Rightarrow>
                          (None, refreshAndOpenCartDrawer (sections_response env)
                                   (updateCartCount item_count w2)))))"

section \<open>Entry points\<close>





text \<open>The timer callback of \<^verbatim>\<open>handleQuickAdd\<close>.\<close>

fun run_callback :: "callback \<Rightarrow> world \<Rightarrow> world" where
  "run_callback (ResetQuickAdd element button) w =
     mutate button (set_disabled False) (mutate element (setAttribute ''aria-busy'' ''false'') w)"

definition handleQuickAdd :: "env \<Rightarrow> node \<Rightarrow> world \<Rightarrow> world" where
  "handleQuickAdd env element w =
     (case (getAttribute element ''data-id'', element_querySelector [Tag ''button''] element) of
        (Some variantId, Some button) \<Rightarrow>
          if variantId = [] then w
          else
            (let w1 = mutate (nid button) (set_disabled True)
                        (mutate (nid element) (setAttribute ''aria-busy'' ''true'') w)
             in case addToCart env variantId (Num 1) w1 of
                  (None, w2) \<Rightarrow>
                    emit (SetTimeout (ResetQuickAdd (nid element) (nid button)) 1000) w2
                | (Some err, w2) \<Rightarrow>
                    mutate (nid button) (set_disabled False)
                      (mutate (nid element) (setAttribute ''aria-busy'' ''false'')
                         (emit (ConsoleError ''Quick add error:'' (Some err)) w2)))
      | _ \<Rightarrow> w)"


definition on_click :: "env \<Rightarrow> node \<Rightarrow> world \<Rightarrow> bool \<times> world" where
  "on_click env target w =
     (case closest [Tag ''product-quick-add'', AttrEq ''data-form'' ''false''] (document w) target of
        Some quickAddElement \<Rightarrow> (True, handleQuickAdd env quickAddElement w)
      | None \<Rightarrow> (False, w))"

section \<open>Auxiliary notions for the properties\<close>

text \<open>The node identities of a tree, in document order; a world is well formed when
  they are pairwise distinct and all below \<open>next_id\<close>.\<close>

definition ids :: "node \<Rightarrow> nat list" where
  "ids d = map nid (elems d)"

definition wf_world :: "world \<Rightarrow> bool" where
  "wf_world w = (distinct (ids (document w)) \<and> list_all (\<lambda>i. i < next_id w) (ids (document w)))"

text \<open>The requests that change the cart.\<close>

fun is_mutation_request :: "effect \<Rightarrow> bool" where
  "is_mutation_request (Fetch (PostJson u h v q)) = True"
| "is_mutation_request _ = False"

text \<open>The badge as \<^verbatim>\<open>updateCartCount\<close> looks it up: the first element of class
  \<^verbatim>\<open>cart-count-badge\<close> under the first element of class \<^verbatim>\<open>header--cart\<close>.\<close>

definition header_badge :: "node \<Rightarrow> node option" where
  "header_badge d =
     (case querySelector (Sel [Class ''header--cart'']) d of
        None \<Rightarrow> None
      | Some headerCart \<Rightarrow> element_querySelector [Class ''cart-count-badge''] headerCart)"

text \<open>The two halves of \<open>updateCartCount\<close>: the write to every count display (an update
  of each element of a list, by reference) and the update of the header badge; \<open>badge_shown\<close>
  is the final write to the badge, and \<open>header_badges\<close> lists every badge under the header.\<close>

definition update_all :: "(node \<Rightarrow> node) \<Rightarrow> node list \<Rightarrow> node \<Rightarrow> node" where
  "update_all f es d = foldl (\<lambda>d' e. update_node (nid e) f d') d es"

definition update_header_badge :: "int \<Rightarrow> world \<Rightarrow> world" where
  "update_header_badge count w1 =
     (case querySelector (Sel [Class ''header--cart'']) (document w1) of
           None \<Rightarrow> w1
         | Some headerCart \<Rightarrow>
             (let (badge, w2) =
                   (case element_querySelector [Class ''cart-count-badge''] headerCart of
                      Some b \<Rightarrow> (nid b, w1)
                    | None \<Rightarrow>
                        (next_id w1,
                         (mutate (nid headerCart) (appendChild (new_badge (next_id w1))) w1)
                           \<lparr>next_id := Suc (next_id w1)\<rparr>))
              in if count > 0
                 then mutate badge (set_style_property ''display'' ''flex'')
                        (mutate badge (set_textContent (show_int count)) w2)
                 else mutate badge (set_style_property ''display'' ''none'') w2))"

definition header_badges :: "node \<Rightarrow> node list" where
  "header_badges d =
     (case querySelector (Sel [Class ''header--cart'']) d of
        None \<Rightarrow> []
      | Some headerCart \<Rightarrow>
          filter (matches_compound [Class ''cart-count-badge'']) (concat (map elems (kids headerCart))))"

definition badge_shown :: "int \<Rightarrow> nat \<Rightarrow> node \<Rightarrow> node" where
  "badge_shown c b d =
     (if c > 0
      then update_node b (set_style_property ''display'' ''flex'')
             (update_node b (set_textContent (show_int c)) d)
      else update_node b (set_style_property ''display'' ''none'') d)"

abbreviation count_attr :: string where "count_attr \<equiv> ''data-cart-count''"

text \<open>The identities strictly below an element.\<close>

definition kid_ids :: "node \<Rightarrow> nat list" where
  "kid_ids e = concat (map ids (kids e))"

text \<open>The busy state of a quick-add element and its button, by reference.\<close>

definition quick_add_busy :: "nat \<Rightarrow> nat \<Rightarrow> node \<Rightarrow> bool" where
  "quick_add_busy element button d =
     ((case node_of element d of None \<Rightarrow> False
       | Some e \<Rightarrow> getAttribute e ''aria-busy'' = Some ''true'') \<and>
      (case node_of button d of None \<Rightarrow> False | Some b \<Rightarrow> disabled b))"

definition quick_add_idle :: "nat \<Rightarrow> nat \<Rightarrow> node \<Rightarrow> bool" where
  "quick_add_idle element button d =
     ((case node_of element d of None \<Rightarrow> True
       | Some e \<Rightarrow> getAttribute e ''aria-busy'' = Some ''false'') \<and>
      (case node_of button d of None \<Rightarrow> True | Some b \<Rightarrow> \<not> disabled b))"

section \<open>Example pages\<close>

definition example_page :: node where
  "example_page =
     Element 0 ''html'' [] None []
      [Element 1 ''body'' [] None []
        [Element 2 ''div'' [(''class'', ''header--cart'')] None []
          [Element 3 ''a'' [(''href'', ''/cart''), (''data-cart-count'', ''0'')] None ''Cart'' []],
         Element 4 ''div'' [(''data-drawer'', '''')] None []
          [Element 5 ''div'' [(''data-drawer-view'', ''cart-drawer'')] None []
            [Element 6 ''cart-element'' [(''data-a'', ''1''), (''data-b'', ''2'')] None ''old''
              [Element 7 ''p'' [] None ''empty'' []]]],
         Element 8 ''product-quick-add'' [(''data-form'', ''false''), (''data-id'', ''123'')] None []
          [Element 9 ''button'' [] None ''Add'' []]]]"

definition example_world :: world where
  "example_world =
     \<lparr>document = example_page, next_id = 10, body_overflow = [],
      origin = ''https://shop.example'', effects = []\<rparr>"

definition example_fragment :: node where
  "example_fragment =
     Element 0 ''html'' [] None []
      [Element 1 ''body'' [] None []
        [Element 2 ''cart-element'' [(''data-b'', ''3''), (''data-c'', ''4'')] None ''new''
          [Element 3 ''ul'' [] None [] []]]]"


definition env_status_422 :: env where
  "env_status_422 = \<lparr>add_response = Response False (Some ()), cart_response = Rejected,
              sections_response = Rejected\<rparr>"




definition quick_add_element :: node where
  "quick_add_element =
     Element 8 ''product-quick-add'' [(''data-form'', ''false''), (''data-id'', ''123'')] None []
       [Element 9 ''button'' [] None ''Add'' []]"

definition link_only_page :: node where
  "link_only_page =
     Element 0 ''html'' [] None []
      [Element 1 ''body'' [] None []
        [Element 2 ''div'' [(''class'', ''site-header header--cart'')] None []
          [Element 3 ''a'' [(''href'', ''/cart'')] None ''Cart'' []]]]"



section \<open>Basic facts about the world\<close>

lemma effects_emit [simp]: "effects (emit x w) = effects w @ [x]"
  by (simp add: emit_def)

lemma emit_fields [simp]:
  "document (emit x w) = document w"
  "next_id (emit x w) = next_id w"
  "body_overflow (emit x w) = body_overflow w"
  "origin (emit x w) = origin w"
  by (simp_all add: emit_def)

lemma mutate_fields [simp]:
  "document (mutate i f w) = update_node i f (document w)"
  "next_id (mutate i f w) = next_id w"
  "body_overflow (mutate i f w) = body_overflow w"
  "origin (mutate i f w) = origin w"
  "effects (mutate i f w) = effects w"
  by (simp_all add: mutate_def)

subsection \<open>Traversal and in-place update\<close>

lemma elems_walk: "map snd (walk anc d) = elems d"
proof (induction d arbitrary: anc)
  case (Element i t a s x ks)
  have "map (\<lambda>k. map snd (walk (Element i t a s x ks # anc) k)) ks = map elems ks"
    using Element by (intro map_cong) auto
  then have "concat (map (\<lambda>k. map snd (walk (Element i t a s x ks # anc) k)) ks) = concat (map elems ks)"
    by (rule arg_cong)
  then show ?case by (simp add: map_concat o_def)
qed

lemma querySelector_Sel: "querySelector (Sel c) d = find (matches_compound c) (elems d)"
proof -
  have "find (matches (Sel c)) xs = find (\<lambda>p. matches_compound c (snd p)) xs" for xs
    by (intro find_cong) auto
  moreover have "map_option snd (find (\<lambda>p. Q (snd p)) xs) = find Q (map snd xs)" for Q and xs :: "(node list \<times> node) list"
    by (induction xs) auto
  ultimately show ?thesis by (simp add: querySelector_def elems_walk)
qed

lemma update_node_absent: "i \<notin> set (ids d) \<Longrightarrow> update_node i f d = d"
proof (induction d)
  case (Element j t a s x ks)
  have "map (update_node i f) ks = ks"
    using Element by (intro map_idI) (auto simp: ids_def)
  with Element.prems show ?case by (auto simp: ids_def)
qed

lemma elems_unfold: "elems e = e # concat (map elems (kids e))"
  by (cases e) simp

lemma kids_update_shallow:
  assumes "\<And>e. kids (f e) = kids e"
  shows "kids (update_node i f d) = map (update_node i f) (kids d)"
  by (cases d) (simp add: Let_def assms)

lemma elems_update_shallow:
  assumes "\<And>e. kids (f e) = kids e"
  shows "elems (update_node i f d) = map (update_node i f) (elems d)"
proof (induction d)
  case (Element j t a s x ks)
  let ?d = "Element j t a s x ks"
  have IH: "map (\<lambda>k. elems (update_node i f k)) ks = map (\<lambda>k. map (update_node i f) (elems k)) ks"
    using Element by (intro map_cong) auto
  have "elems (update_node i f ?d) = update_node i f ?d # concat (map elems (kids (update_node i f ?d)))"
    by (rule elems_unfold)
  also have "kids (update_node i f ?d) = map (update_node i f) ks"
    using kids_update_shallow[OF assms, of i ?d] by simp
  also have "concat (map elems (map (update_node i f) ks)) = map (update_node i f) (concat (map elems ks))"
    using arg_cong[OF IH, of concat] by (simp add: map_concat o_def)
  finally show ?case by simp
qed

subsection \<open>The effects of the operations\<close>

lemma effects_foldl_mutate:
  "effects (foldl (\<lambda>w' x. mutate (g x) (h x) w') w xs) = effects w"
  by (induction xs arbitrary: w) simp_all

lemma effects_updateCartCount [simp]: "effects (updateCartCount n w) = effects w"
  by (simp add: updateCartCount_def Let_def effects_foldl_mutate split: option.splits prod.splits)

lemma effects_mergeCartElement [simp]: "effects (mergeCartElement a b w) = effects w"
proof -
  have "effects (foldl (\<lambda>w' (name, val). mutate i (setAttribute name val) w') w0 xs) = effects w0" for i w0 xs
    by (induction xs arbitrary: w0) (simp_all add: case_prod_beta)
  then show ?thesis
    by (simp add: mergeCartElement_def Let_def split: option.splits)
qed

lemma mutation_requests_openCartDrawer [simp]:
  "filter is_mutation_request (effects (openCartDrawer w)) = filter is_mutation_request (effects w)"
  by (simp add: openCartDrawer_def click_def split: option.splits)

lemma mutation_requests_refresh [simp]:
  "filter is_mutation_request (effects (refreshAndOpenCartDrawer r w)) = filter is_mutation_request (effects w)"
  by (simp add: refreshAndOpenCartDrawer_def Let_def split: response.splits option.splits)


subsection \<open>Printing and reading integers\<close>










subsection \<open>Queries after an attribute update\<close>


lemma find_Some_set: "find P xs = Some x \<Longrightarrow> x \<in> set xs \<and> P x"
  by (induction xs) (auto split: if_splits)



lemma find_map_option: "find P (map f xs) = map_option f (find (\<lambda>x. P (f x)) xs)"
  by (induction xs) auto

lemma nid_update_node: "(\<And>e. nid (f e) = nid e) \<Longrightarrow> nid (update_node i f e) = nid e"
  by (cases e) (simp add: Let_def)

lemma node_of_update_shallow:
  assumes "\<And>e. kids (f e) = kids e" and "\<And>e. nid (f e) = nid e"
  shows "node_of j (update_node i f d) = map_option (update_node i f) (node_of j d)"
  by (simp add: node_of_def elems_update_shallow[OF assms(1)] find_map_option nid_update_node[OF assms(2)])

lemma setAttribute_fields [simp]:
  "nid (setAttribute n v e) = nid e" "tag (setAttribute n v e) = tag e"
  "attrs (setAttribute n v e) = AList.update n v (attrs e)" "style (setAttribute n v e) = style e"
  "chars (setAttribute n v e) = chars e" "kids (setAttribute n v e) = kids e"
  by (cases e; simp)+

lemma removeAttribute_fields [simp]:
  "nid (removeAttribute n e) = nid e" "tag (removeAttribute n e) = tag e"
  "attrs (removeAttribute n e) = AList.delete n (attrs e)" "style (removeAttribute n e) = style e"
  "chars (removeAttribute n e) = chars e" "kids (removeAttribute n e) = kids e"
  by (cases e; simp)+

lemma set_disabled_fields [simp]:
  "nid (set_disabled b e) = nid e" "tag (set_disabled b e) = tag e"
  "style (set_disabled b e) = style e"
  "chars (set_disabled b e) = chars e" "kids (set_disabled b e) = kids e"
  by (simp_all add: set_disabled_def)

lemma attrs_update_node:
  assumes "\<And>e. attrs (f e) = g (attrs e)"
  shows "attrs (update_node i f e) = (if nid e = i then g (attrs e) else attrs e)"
  by (cases e) (auto simp add: Let_def assms)

lemma getAttribute_setAttribute:
  "getAttribute (setAttribute n v e) m = (if m = n then Some v else getAttribute e m)"
  by (simp add: getAttribute_def update_conv')

lemma example_drawer: "drawer_of example_page = Some (Element 4 ''div'' [(''data-drawer'', '''')] None []
          [Element 5 ''div'' [(''data-drawer-view'', ''cart-drawer'')] None []
            [Element 6 ''cart-element'' [(''data-a'', ''1''), (''data-b'', ''2'')] None ''old''
              [Element 7 ''p'' [] None ''empty'' []]]])"
  by (simp add: drawer_of_def example_page_def querySelector_def closest_def matches_compound_def getAttribute_def)





subsection \<open>Attribute updates by reference\<close>

lemma elems_trans: "e \<in> set (elems d) \<Longrightarrow> set (elems e) \<subseteq> set (elems d)"
proof (induction d)
  case (Element i t a s x ks)
  show ?case
  proof (cases "e = Element i t a s x ks")
    case True then show ?thesis by simp
  next
    case False
    with Element.prems obtain k where k: "k \<in> set ks" "e \<in> set (elems k)" by auto
    from Element.IH[OF k] k(1) show ?thesis by auto
  qed
qed

lemma node_of_exists: "x \<in> set (elems d) \<Longrightarrow> \<exists>y. node_of (nid x) d = Some y \<and> nid y = nid x"
  by (cases "node_of (nid x) d") (auto simp: node_of_def find_None_iff dest: find_Some_set)

lemma element_querySelector_in: "element_querySelector c e = Some b \<Longrightarrow> b \<in> set (elems e)"
  by (auto simp: element_querySelector_def elems_unfold[of e] dest!: find_Some_set)

lemma attrs_set_disabled [simp]:
  "attrs (set_disabled b e) =
     (if b then AList.update ''disabled'' '''' (attrs e) else AList.delete ''disabled'' (attrs e))"
  by (simp add: set_disabled_def)

lemma attrs_update_setAttribute [simp]:
  "attrs (update_node i (setAttribute n v) e) = (if nid e = i then AList.update n v (attrs e) else attrs e)"
  by (rule attrs_update_node) simp

lemma attrs_update_set_disabled [simp]:
  "attrs (update_node i (set_disabled b) e) =
     (if nid e = i then (if b then AList.update ''disabled'' '''' (attrs e) else AList.delete ''disabled'' (attrs e))
      else attrs e)"
  by (rule attrs_update_node[where g = "\<lambda>a. if b then AList.update ''disabled'' '''' a else AList.delete ''disabled'' a"]) simp

lemma nid_update_shallow [simp]:
  "nid (update_node i (setAttribute n v) e) = nid e"
  "nid (update_node i (set_disabled b) e) = nid e"
  by (simp_all add: nid_update_node)

lemma node_of_setAttribute [simp]:
  "node_of j (update_node i (setAttribute n v) d) = map_option (update_node i (setAttribute n v)) (node_of j d)"
  by (rule node_of_update_shallow) simp_all

lemma node_of_set_disabled [simp]:
  "node_of j (update_node i (set_disabled b) d) = map_option (update_node i (set_disabled b)) (node_of j d)"
  by (rule node_of_update_shallow) simp_all

lemma mark_busy:
  assumes "node_of e d = Some x" and "node_of b d = Some y"
  shows "quick_add_busy e b (update_node b (set_disabled True) (update_node e (setAttribute ''aria-busy'' ''true'') d))"
proof -
  from assms have "nid x = e" "nid y = b" by (auto simp: node_of_def dest: find_Some_set)
  with assms show ?thesis
    by (simp add: quick_add_busy_def getAttribute_def disabled_def update_conv')
qed

lemma reset_idle:
  "quick_add_idle e b (update_node b (set_disabled False) (update_node e (setAttribute ''aria-busy'' ''false'') d))"
proof -
  have "nid x = e" if "node_of e d = Some x" for x e using that by (auto simp: node_of_def dest: find_Some_set)
  then show ?thesis
    by (auto simp add: quick_add_idle_def getAttribute_def disabled_def update_conv' delete_conv' split: option.splits)
qed

subsection \<open>Updates by reference on a well-formed page\<close>

lemma ids_unfold: "ids e = nid e # kid_ids e"
  by (cases e) (simp add: ids_def[abs_def] kid_ids_def map_concat o_def)

lemma find_append: "find P (xs @ ys) = (case find P xs of None \<Rightarrow> find P ys | Some x \<Rightarrow> Some x)"
  by (induction xs) auto

lemma find_id_None: "find (\<lambda>x. nid x = i) (elems d) = None \<longleftrightarrow> i \<notin> set (ids d)"
  by (auto simp: find_None_iff ids_def)

lemma update_forest_absent:
  "i \<notin> set (concat (map ids ks)) \<Longrightarrow> map (update_node i f) ks = ks"
  by (intro map_idI update_node_absent) auto

text \<open>The first element with identity i, when its subtree holds no other i, is replaced by its image.\<close>

lemma find_id_update_forest:
  assumes IH: "\<And>k e. k \<in> set ks \<Longrightarrow> find (\<lambda>x. nid x = i) (elems k) = Some e \<Longrightarrow> i \<notin> set (kid_ids e) \<Longrightarrow>
            find (\<lambda>x. nid x = i) (elems (update_node i g k)) = Some (g e)"
    and "find (\<lambda>x. nid x = i) (concat (map elems ks)) = Some e" and "i \<notin> set (kid_ids e)"
  shows "find (\<lambda>x. nid x = i) (concat (map elems (map (update_node i g) ks))) = Some (g e)"
  using assms
proof (induction ks)
  case Nil
  then show ?case by simp
next
  case (Cons k ks)
  show ?case
  proof (cases "find (\<lambda>x. nid x = i) (elems k)")
    case None
    then have "update_node i g k = k" by (simp add: find_id_None update_node_absent)
    moreover from None Cons.prems(2) have "find (\<lambda>x. nid x = i) (concat (map elems ks)) = Some e"
      by (simp add: find_append)
    ultimately show ?thesis using None Cons.IH[OF Cons.prems(1) _ Cons.prems(3)]
      by (simp add: find_append)
  next
    case (Some e')
    with Cons.prems(2) have "e' = e" by (simp add: find_append)
    with Some Cons.prems(1)[of k e] Cons.prems(3) show ?thesis by (simp add: find_append)
  qed
qed

lemma node_of_update_same:
  assumes "\<And>x. nid (g x) = nid x"
  shows "node_of i d = Some e \<Longrightarrow> i \<notin> set (kid_ids e) \<Longrightarrow> node_of i (update_node i g d) = Some (g e)"
  unfolding node_of_def
proof (induction d arbitrary: e)
  case (Element j t a s x ks)
  let ?d = "Element j t a s x ks"
  show ?case
  proof (cases "i = j")
    case True
    with Element.prems have e: "e = ?d" by simp
    with Element.prems(2) have "map (update_node i g) ks = ks"
      by (intro update_forest_absent) (simp add: kid_ids_def)
    with True e have "update_node i g ?d = g e" by (simp add: Let_def)
    moreover have "nid (g e) = i" using e True assms by simp
    ultimately show ?thesis by (simp add: elems_unfold[of "g e"])
  next
    case False
    with Element.prems have f: "find (\<lambda>x. nid x = i) (concat (map elems ks)) = Some e" by simp
    have "find (\<lambda>x. nid x = i) (concat (map elems (map (update_node i g) ks))) = Some (g e)"
      by (rule find_id_update_forest[OF _ f Element.prems(2)]) (rule Element.IH)
    with False show ?thesis by (simp add: Let_def)
  qed
qed

lemma ids_shift: "ids (shift_ids k e) = map ((+) k) (ids e)"
proof (induction e)
  case (Element i t a s x ks)
  have "map (\<lambda>c. ids (shift_ids k c)) ks = map (\<lambda>c. map ((+) k) (ids c)) ks"
    using Element by (intro map_cong) auto
  from arg_cong[OF this, of concat] show ?case
    by (simp add: ids_unfold[of "Element (k + i) t a s x (map (shift_ids k) ks)"]
          ids_unfold[of "Element i t a s x ks"] kid_ids_def map_concat o_def)
qed

lemma distinct_sub: "e \<in> set (elems d) \<Longrightarrow> distinct (ids d) \<Longrightarrow> distinct (ids e)"
proof (induction d)
  case (Element i t a s x ks)
  show ?case
  proof (cases "e = Element i t a s x ks")
    case True with Element.prems show ?thesis by simp
  next
    case False
    with Element.prems(1) obtain k where k: "k \<in> set ks" "e \<in> set (elems k)" by auto
    from Element.prems(2) have "distinct (concat (map ids ks))"
      by (simp add: ids_unfold[of "Element i t a s x ks"] kid_ids_def)
    with k(1) have "distinct (ids k)" by (auto simp: distinct_concat_iff)
    with Element.IH[OF k] show ?thesis by simp
  qed
qed

lemma find_distinct:
  "distinct (map f xs) \<Longrightarrow> x \<in> set xs \<Longrightarrow> find (\<lambda>y. f y = f x) xs = Some x"
  by (induction xs) (auto simp: rev_image_eqI)

lemma node_of_distinct: "distinct (ids d) \<Longrightarrow> e \<in> set (elems d) \<Longrightarrow> node_of (nid e) d = Some e"
  unfolding node_of_def ids_def by (rule find_distinct)

lemma own_id_not_below: "distinct (ids d) \<Longrightarrow> e \<in> set (elems d) \<Longrightarrow> nid e \<notin> set (kid_ids e)"
  using distinct_sub[of e d] by (simp add: ids_unfold[of e])

lemma kid_ids_setAttribute [simp]: "kid_ids (setAttribute n v e) = kid_ids e"
  by (simp add: kid_ids_def)

lemma foldl_setAttribute_node:
  assumes "node_of c (document w) = Some e" and "c \<notin> set (kid_ids e)"
  shows "node_of c (document (foldl (\<lambda>w' (name, val). mutate c (setAttribute name val) w') w xs)) =
         Some (foldl (\<lambda>e' (name, val). setAttribute name val e') e xs)"
  using assms
proof (induction xs arbitrary: w e)
  case Nil
  then show ?case by simp
next
  case (Cons p xs)
  obtain n v where p: "p = (n, v)" by (cases p)
  have "node_of c (document (mutate c (setAttribute n v) w)) = Some (setAttribute n v e)"
    using node_of_update_same[of "setAttribute n v", OF _ Cons.prems] by simp
  from Cons.IH[OF this] Cons.prems(2) show ?case by (simp add: p)
qed

lemma foldl_setAttribute_fields:
  "nid (foldl (\<lambda>e' (name, val). setAttribute name val e') e xs) = nid e"
  "tag (foldl (\<lambda>e' (name, val). setAttribute name val e') e xs) = tag e"
  "style (foldl (\<lambda>e' (name, val). setAttribute name val e') e xs) = style e"
  "chars (foldl (\<lambda>e' (name, val). setAttribute name val e') e xs) = chars e"
  "kids (foldl (\<lambda>e' (name, val). setAttribute name val e') e xs) = kids e"
  by (induction xs arbitrary: e; simp add: case_prod_beta)+

lemma foldl_setAttribute_get:
  "distinct (map fst xs) \<Longrightarrow>
   getAttribute (foldl (\<lambda>e' (name, val). setAttribute name val e') e xs) n =
     (case map_of xs n of Some v \<Rightarrow> Some v | None \<Rightarrow> getAttribute e n)"
proof (induction xs arbitrary: e)
  case Nil
  then show ?case by simp
next
  case (Cons p xs)
  obtain k v where p: "p = (k, v)" by (cases p)
  from Cons.prems p have "map_of xs k = None" by (simp add: map_of_eq_None_iff)
  with Cons show ?case
    by (auto simp: p getAttribute_setAttribute split: option.splits)
qed

lemma set_innerHTML_fields [simp]:
  "nid (set_innerHTML k src e) = nid e" "tag (set_innerHTML k src e) = tag e"
  "attrs (set_innerHTML k src e) = attrs e" "style (set_innerHTML k src e) = style e"
  "chars (set_innerHTML k src e) = chars src"
  "kids (set_innerHTML k src e) = map (shift_ids k) (kids src)"
  by (cases e; simp)+

lemma set_cssText_fields [simp]:
  "nid (set_cssText ds e) = nid e" "tag (set_cssText ds e) = tag e"
  "attrs (set_cssText ds e) = attrs e" "style (set_cssText ds e) = Some ds"
  "chars (set_cssText ds e) = chars e" "kids (set_cssText ds e) = kids e"
  by (cases e; simp)+

lemma kid_ids_innerHTML: "set (kid_ids (set_innerHTML k src e)) \<subseteq> {i. k \<le> i}"
  by (auto simp: kid_ids_def ids_shift)

subsection \<open>The two halves of \<open>updateCartCount\<close>\<close>

lemma foldl_mutate:
  "foldl (\<lambda>w' e. mutate (nid e) f w') w es = w\<lparr>document := update_all f es (document w)\<rparr>"
  by (induction es arbitrary: w) (simp_all add: update_all_def mutate_def)

lemma updateCartCount_split:
  "updateCartCount c w =
     update_header_badge c
       (w\<lparr>document := update_all (setAttribute ''data-cart-count'' (show_int c))
            (querySelectorAll (Sel [HasAttr ''data-cart-count'']) (document w)) (document w)\<rparr>)"
  unfolding updateCartCount_def update_header_badge_def Let_def foldl_mutate ..

lemma update_all_Nil [simp]: "update_all f [] d = d"
  by (simp add: update_all_def)

lemma update_all_Cons [simp]: "update_all f (e # es) d = update_all f es (update_node (nid e) f d)"
  by (simp add: update_all_def)

lemma update_all_Nil_fun: "update_all f [] = (\<lambda>d. d)"
  by (rule ext) simp

lemma elems_update_all:
  assumes "\<And>e. kids (f e) = kids e"
  shows "elems (update_all f es d) = map (update_all f es) (elems d)"
proof (induction es arbitrary: d)
  case Nil
  show ?case by (simp add: update_all_Nil_fun)
next
  case (Cons e es)
  have "update_all f (e # es) = (\<lambda>x. update_all f es (update_node (nid e) f x))"
    by (rule ext) simp
  then show ?case by (simp add: Cons elems_update_shallow[OF assms] o_def)
qed

lemma kids_update_all:
  assumes "\<And>e. kids (f e) = kids e"
  shows "kids (update_all f es d) = map (update_all f es) (kids d)"
proof (induction es arbitrary: d)
  case Nil
  show ?case by (simp add: update_all_Nil_fun)
next
  case (Cons e es)
  have "update_all f (e # es) = (\<lambda>x. update_all f es (update_node (nid e) f x))"
    by (rule ext) simp
  then show ?case by (simp add: Cons kids_update_shallow[OF assms] o_def)
qed

lemma nid_update_all: "(\<And>e. nid (f e) = nid e) \<Longrightarrow> nid (update_all f es x) = nid x"
  by (induction es arbitrary: x) (simp_all add: nid_update_node)

lemma attrs_update_all_setAttribute:
  "attrs (update_all (setAttribute n v) es x) =
     (if nid x \<in> nid ` set es then AList.update n v (attrs x) else attrs x)"
  by (induction es arbitrary: x) (auto simp: nid_update_node)

lemma querySelectorAll_Sel: "querySelectorAll (Sel c) d = filter (matches_compound c) (elems d)"
proof -
  have "filter (matches (Sel c)) xs = filter (\<lambda>p. matches_compound c (snd p)) xs" for xs
    by (intro filter_cong) auto
  moreover have "map snd (filter (\<lambda>p. matches_compound c (snd p)) xs) =
      filter (matches_compound c) (map snd xs)" for xs :: "(node list \<times> node) list"
    by (simp add: filter_map o_def)
  ultimately show ?thesis by (simp add: querySelectorAll_def elems_walk)
qed

text \<open>After the first half of updateCartCount every count display carries the count.\<close>

lemma count_displays_set:
  assumes "x \<in> set (elems (update_all (setAttribute n v) (querySelectorAll (Sel [HasAttr n]) d) d))"
  shows "getAttribute x n = None \<or> getAttribute x n = Some v"
proof -
  let ?es = "querySelectorAll (Sel [HasAttr n]) d"
  from assms obtain x0 where x0: "x0 \<in> set (elems d)" "x = update_all (setAttribute n v) ?es x0"
    by (auto simp: elems_update_all)
  show ?thesis
  proof (cases "nid x0 \<in> nid ` set ?es")
    case True
    then show ?thesis by (simp add: x0(2) getAttribute_def attrs_update_all_setAttribute update_conv')
  next
    case False
    with x0(1) have "\<not> matches_compound [HasAttr n] x0"
      by (auto simp: querySelectorAll_Sel)
    with False show ?thesis
      by (simp add: x0(2) getAttribute_def attrs_update_all_setAttribute matches_compound_def)
  qed
qed

text \<open>A property of the attributes of every element survives an update that keeps it.\<close>

lemma all_attrs_update_node:
  assumes g: "\<And>e. (\<forall>x\<in>set (elems e). Q (attrs x)) \<Longrightarrow> (\<forall>x\<in>set (elems (g e)). Q (attrs x))"
  shows "(\<forall>x\<in>set (elems d). Q (attrs x)) \<Longrightarrow> (\<forall>x\<in>set (elems (update_node i g d)). Q (attrs x))"
proof (induction d)
  case (Element j t a s y ks)
  let ?e = "Element j t a s y (map (update_node i g) ks)"
  from Element.prems have qa: "Q a" and kq: "\<And>k x. k \<in> set ks \<Longrightarrow> x \<in> set (elems k) \<Longrightarrow> Q (attrs x)"
    by auto
  have "Q (attrs x)" if "k \<in> set ks" "x \<in> set (elems (update_node i g k))" for k x
    using Element.IH[OF that(1)] kq[OF that(1)] that(2) by blast
  with qa have "\<forall>x\<in>set (elems ?e). Q (attrs x)"
    by (auto simp del: update_node.simps)
  from g[OF this] this show ?case by (simp add: Let_def del: elems.simps)
qed

lemma set_textContent_fields [simp]:
  "nid (set_textContent str e) = nid e" "tag (set_textContent str e) = tag e"
  "attrs (set_textContent str e) = attrs e" "style (set_textContent str e) = style e"
  "chars (set_textContent str e) = str" "kids (set_textContent str e) = []"
  by (cases e; simp)+

lemma set_style_property_fields [simp]:
  "nid (set_style_property p v e) = nid e" "tag (set_style_property p v e) = tag e"
  "attrs (set_style_property p v e) = attrs e"
  "chars (set_style_property p v e) = chars e" "kids (set_style_property p v e) = kids e"
  by (cases e; simp)+

lemma appendChild_fields [simp]:
  "nid (appendChild c e) = nid e" "tag (appendChild c e) = tag e"
  "attrs (appendChild c e) = attrs e" "style (appendChild c e) = style e"
  "chars (appendChild c e) = chars e" "kids (appendChild c e) = kids e @ [c]"
  by (cases e; simp)+

lemma style_property_set [simp]: "style_property (set_style_property p v e) p = Some v"
  by (cases e) (simp add: style_property_def update_conv')

lemma new_badge_fields [simp]:
  "nid (new_badge i) = i" "tag (new_badge i) = ''span''"
  "attrs (new_badge i) = [(''class'', ''cart-count-badge'')]" "kids (new_badge i) = []"
  "chars (new_badge i) = []"
  by (simp_all add: new_badge_def)

lemma self_in_elems [simp]: "e \<in> set (elems e)"
  by (cases e) simp

lemma elems_set_textContent [simp]: "elems (set_textContent str e) = [set_textContent str e]"
  by (cases e) simp

lemma all_attrs_set_style_property:
  "(\<forall>x\<in>set (elems e). Q (attrs x)) \<Longrightarrow> (\<forall>x\<in>set (elems (set_style_property p v e)). Q (attrs x))"
  by (cases e) auto

lemma all_attrs_appendChild:
  "(\<forall>x\<in>set (elems e). Q (attrs x)) \<Longrightarrow> (\<forall>x\<in>set (elems c). Q (attrs x)) \<Longrightarrow>
   (\<forall>x\<in>set (elems (appendChild c e)). Q (attrs x))"
  by (cases e) auto

lemma elems_new_badge [simp]: "elems (new_badge k) = [new_badge k]"
  by (simp add: new_badge_def)

lemma all_attrs_header_step:
  assumes "\<forall>x\<in>set (elems (document w)). Q (attrs x)" and "Q [(''class'', ''cart-count-badge'')]"
  shows "\<forall>x\<in>set (elems (document (update_header_badge c w))). Q (attrs x)"
proof -
  have t: "\<forall>x\<in>set (elems (document (mutate i (set_textContent str) w'))). Q (attrs x)"
    if "\<forall>x\<in>set (elems (document w')). Q (attrs x)" for w' i str
    unfolding mutate_fields
    by (rule all_attrs_update_node[OF _ that]) simp
  have s: "\<forall>x\<in>set (elems (document (mutate i (set_style_property p v) w'))). Q (attrs x)"
    if "\<forall>x\<in>set (elems (document w')). Q (attrs x)" for w' i p v
    unfolding mutate_fields
    by (rule all_attrs_update_node[OF _ that]) (rule all_attrs_set_style_property)
  have a: "\<forall>x\<in>set (elems (document ((mutate i (appendChild (new_badge k)) w')\<lparr>next_id := m\<rparr>))). Q (attrs x)"
    if "\<forall>x\<in>set (elems (document w')). Q (attrs x)" for w' i k m
  proof -
    have "\<forall>x\<in>set (elems (update_node i (appendChild (new_badge k)) (document w'))). Q (attrs x)"
      by (rule all_attrs_update_node[OF _ that]) (rule all_attrs_appendChild, simp_all add: assms(2))
    then show ?thesis by simp
  qed
  show ?thesis
  proof (cases "querySelector (Sel [Class ''header--cart'']) (document w)")
    case None
    with assms(1) show ?thesis by (simp add: update_header_badge_def)
  next
    case (Some h)
    show ?thesis
    proof (cases "element_querySelector [Class ''cart-count-badge''] h")
      case None
      with Some show ?thesis
        using s[OF t[OF a[OF assms(1)]]] s[OF a[OF assms(1)]]
        by (simp add: update_header_badge_def Let_def del: mutate_fields)
    next
      case (Some b)
      with \<open>querySelector (Sel [Class ''header--cart'']) (document w) = Some h\<close> show ?thesis
        using s[OF t[OF assms(1)]] s[OF assms(1)]
        by (simp add: update_header_badge_def Let_def del: mutate_fields)
    qed
  qed
qed

lemma matches_compound_shallow:
  assumes "tag x = tag y" and "attrs x = attrs y"
  shows "matches_compound c x = matches_compound c y"
proof -
  have "matches_simple s x = matches_simple s y" for s
    using assms by (cases s) (simp_all add: getAttribute_def classList_def)
  then show ?thesis by (simp add: matches_compound_def)
qed

lemma forest_ids_sub: "h \<in> set (concat (map elems ks)) \<Longrightarrow> set (ids h) \<subseteq> set (concat (map ids ks))"
proof -
  assume "h \<in> set (concat (map elems ks))"
  then obtain k where k: "k \<in> set ks" "h \<in> set (elems k)" by auto
  from elems_trans[OF k(2)] have "set (ids h) \<subseteq> set (ids k)" by (auto simp: ids_def)
  with k(1) show ?thesis by auto
qed

lemma update_node_self: "nid e \<notin> set (kid_ids e) \<Longrightarrow> update_node (nid e) g e = g e"
proof -
  assume a: "nid e \<notin> set (kid_ids e)"
  obtain j t a' s x ks where e: "e = Element j t a' s x ks" by (cases e)
  from a have "map (update_node j g) ks = ks"
    unfolding e by (intro update_forest_absent) (simp add: kid_ids_def)
  then show ?thesis by (simp add: e Let_def)
qed

lemma find_update_forest:
  assumes IH: "\<And>k h. k \<in> set ks \<Longrightarrow> distinct (ids k) \<Longrightarrow> find P (elems k) = Some h \<Longrightarrow> i \<in> set (ids h) \<Longrightarrow>
            find P (elems (update_node i g k)) = Some (update_node i g h)"
    and "distinct (concat (map ids ks))" and "find P (concat (map elems ks)) = Some h"
    and "i \<in> set (ids h)"
  shows "find P (concat (map elems (map (update_node i g) ks))) = Some (update_node i g h)"
  using assms
proof (induction ks)
  case Nil
  then show ?case by simp
next
  case (Cons k ks)
  from Cons.prems(2) have dk: "distinct (ids k)" and dks: "distinct (concat (map ids ks))"
    and disj: "set (ids k) \<inter> set (concat (map ids ks)) = {}" by auto
  show ?case
  proof (cases "find P (elems k)")
    case (Some h')
    with Cons.prems(3) have "h' = h" by (simp add: find_append)
    with Some Cons.prems(1)[of k h, OF _ dk] Cons.prems(4) show ?thesis by (simp add: find_append)
  next
    case None
    with Cons.prems(3) have f: "find P (concat (map elems ks)) = Some h" by (simp add: find_append)
    then have "h \<in> set (concat (map elems ks))" by (blast dest: find_Some_set)
    from forest_ids_sub[OF this] Cons.prems(4) disj have "i \<notin> set (ids k)" by auto
    then have "update_node i g k = k" by (rule update_node_absent)
    moreover have "find P (concat (map elems (map (update_node i g) ks))) = Some (update_node i g h)"
      by (rule Cons.IH[OF Cons.prems(1) dks f Cons.prems(4)]) auto
    ultimately show ?thesis using None by (simp add: find_append)
  qed
qed

lemma shallow_update_node:
  assumes "\<And>x. tag (g x) = tag x \<and> attrs (g x) = attrs x"
  shows "tag (update_node i g d) = tag d" "attrs (update_node i g d) = attrs d"
  using assms by (cases d; simp add: Let_def)+

lemma find_update_node:
  assumes sh: "\<And>x y. tag x = tag y \<Longrightarrow> attrs x = attrs y \<Longrightarrow> P x = P y"
    and gp: "\<And>x. tag (g x) = tag x \<and> attrs (g x) = attrs x"
  shows "distinct (ids d) \<Longrightarrow> find P (elems d) = Some h \<Longrightarrow> i \<in> set (ids h) \<Longrightarrow>
         find P (elems (update_node i g d)) = Some (update_node i g h)"
proof (induction d arbitrary: h)
  case (Element j t a s x ks)
  let ?d = "Element j t a s x ks"
  have Pd: "P (update_node i g ?d) = P ?d"
    by (rule sh) (simp_all add: shallow_update_node[OF gp] del: update_node.simps)
  show ?case
  proof (cases "P ?d")
    case True
    with Element.prems(2) have "h = ?d" by simp
    with True Pd show ?thesis by (simp add: elems_unfold[of "update_node i g ?d"] del: update_node.simps)
  next
    case False
    with Element.prems(2) have f: "find P (concat (map elems ks)) = Some h" by simp
    from Element.prems(1) have dj: "j \<notin> set (kid_ids ?d)" and dks: "distinct (concat (map ids ks))"
      by (simp_all add: ids_unfold[of ?d] kid_ids_def)
    from f have "h \<in> set (concat (map elems ks))" by (blast dest: find_Some_set)
    from forest_ids_sub[OF this] Element.prems(3) have "i \<in> set (kid_ids ?d)" by (auto simp: kid_ids_def)
    with dj have ij: "i \<noteq> j" by auto
    have "find P (concat (map elems (map (update_node i g) ks))) = Some (update_node i g h)"
      by (rule find_update_forest[OF _ dks f Element.prems(3)]) (rule Element.IH)
    moreover from False Pd have "\<not> P (Element j t a s x (map (update_node i g) ks))"
      using ij by (simp add: Let_def)
    ultimately show ?thesis using ij by (simp add: Let_def)
  qed
qed

lemma ids_update_forest:
  assumes IH: "\<And>k. k \<in> set ks \<Longrightarrow> distinct (ids k) \<Longrightarrow> F \<inter> set (ids k) = {} \<Longrightarrow>
            distinct (ids (update_node i g k)) \<and> set (ids (update_node i g k)) \<subseteq> set (ids k) \<union> F"
    and "distinct (concat (map ids ks))" and "F \<inter> set (concat (map ids ks)) = {}"
  shows "distinct (concat (map ids (map (update_node i g) ks))) \<and>
         set (concat (map ids (map (update_node i g) ks))) \<subseteq> set (concat (map ids ks)) \<union> F"
  using assms
proof (induction ks)
  case Nil
  then show ?case by simp
next
  case (Cons k ks)
  from Cons.prems(2) have dk: "distinct (ids k)" and dks: "distinct (concat (map ids ks))"
    and disj: "set (ids k) \<inter> set (concat (map ids ks)) = {}" by auto
  from Cons.prems(3) have Fk: "F \<inter> set (ids k) = {}" and Fks: "F \<inter> set (concat (map ids ks)) = {}"
    by auto
  show ?case
  proof (cases "i \<in> set (ids k)")
    case True
    with disj have "i \<notin> set (concat (map ids ks))" by auto
    then have "map (update_node i g) ks = ks" by (rule update_forest_absent)
    moreover from Cons.prems(1)[of k, OF _ dk Fk]
    have "distinct (ids (update_node i g k))" "set (ids (update_node i g k)) \<subseteq> set (ids k) \<union> F" by auto
    ultimately show ?thesis using dks disj Fks by auto
  next
    case False
    then have "update_node i g k = k" by (rule update_node_absent)
    moreover have "distinct (concat (map ids (map (update_node i g) ks))) \<and>
         set (concat (map ids (map (update_node i g) ks))) \<subseteq> set (concat (map ids ks)) \<union> F"
      by (rule Cons.IH[OF Cons.prems(1) dks Fks]) auto
    ultimately show ?thesis using dk disj Fk by simp blast
  qed
qed

lemma ids_update_node:
  shows "(\<And>e. e \<in> set (elems d) \<Longrightarrow> nid e = i \<Longrightarrow>
            distinct (ids (g e)) \<and> set (ids (g e)) \<subseteq> set (ids e) \<union> F) \<Longrightarrow>
         distinct (ids d) \<Longrightarrow> F \<inter> set (ids d) = {} \<Longrightarrow>
         distinct (ids (update_node i g d)) \<and> set (ids (update_node i g d)) \<subseteq> set (ids d) \<union> F"
proof (induction d)
  case (Element j t a s x ks)
  let ?d = "Element j t a s x ks"
  from Element.prems(2) have dj: "j \<notin> set (kid_ids ?d)" and dks: "distinct (concat (map ids ks))"
    by (simp_all add: ids_unfold[of ?d] kid_ids_def)
  from Element.prems(3) have Fj: "j \<notin> F" and Fks: "F \<inter> set (concat (map ids ks)) = {}"
    by (auto simp add: ids_unfold[of ?d] kid_ids_def)
  show ?case
  proof (cases "i = j")
    case True
    with dj have "update_node i g ?d = g ?d" using update_node_self[of ?d g] by simp
    with Element.prems(1)[of ?d] True show ?thesis by simp
  next
    case False
    have "distinct (concat (map ids (map (update_node i g) ks))) \<and>
         set (concat (map ids (map (update_node i g) ks))) \<subseteq> set (concat (map ids ks)) \<union> F"
    proof (rule ids_update_forest[OF _ dks Fks])
      fix k assume k: "k \<in> set ks" "distinct (ids k)" "F \<inter> set (ids k) = {}"
      show "distinct (ids (update_node i g k)) \<and> set (ids (update_node i g k)) \<subseteq> set (ids k) \<union> F"
      proof (rule Element.IH[OF k(1) _ k(2,3)])
        fix e assume "e \<in> set (elems k)" "nid e = i"
        with k(1) Element.prems(1)[of e]
        show "distinct (ids (g e)) \<and> set (ids (g e)) \<subseteq> set (ids e) \<union> F" by auto
      qed
    qed
    with False dj Fj show ?thesis
      by (auto simp add: Let_def ids_unfold[of "Element j t a s x (map (update_node i g) ks)"]
            ids_unfold[of ?d] kid_ids_def)
  qed
qed

lemma ids_update_shallow:
  assumes "\<And>e. kids (f e) = kids e" and "\<And>e. nid (f e) = nid e"
  shows "ids (update_node i f d) = ids d"
  by (simp add: ids_def elems_update_shallow[OF assms(1)] o_def nid_update_node[OF assms(2)])

lemma ids_set_textContent [simp]: "ids (set_textContent str e) = [nid e]"
  by (simp add: ids_def)

lemma ids_appendChild: "ids (appendChild c e) = ids e @ ids c"
  by (cases e) (simp add: ids_def)

lemma ids_new_badge [simp]: "ids (new_badge n) = [n]"
  by (simp add: ids_def)

lemma distinct_textContent:
  assumes "distinct (ids d)"
  shows "distinct (ids (update_node i (set_textContent str) d)) \<and>
         set (ids (update_node i (set_textContent str) d)) \<subseteq> set (ids d)"
proof -
  have "distinct (ids (update_node i (set_textContent str) d)) \<and>
         set (ids (update_node i (set_textContent str) d)) \<subseteq> set (ids d) \<union> {}"
  proof (rule ids_update_node[OF _ assms])
    fix e assume "e \<in> set (elems d)" "nid e = i"
    show "distinct (ids (set_textContent str e)) \<and>
          set (ids (set_textContent str e)) \<subseteq> set (ids e) \<union> {}"
      by (simp add: ids_unfold[of e])
  qed simp
  then show ?thesis by simp
qed

lemma distinct_appendChild:
  assumes "distinct (ids d)" and "n \<notin> set (ids d)"
  shows "distinct (ids (update_node i (appendChild (new_badge n)) d)) \<and>
         set (ids (update_node i (appendChild (new_badge n)) d)) \<subseteq> set (ids d) \<union> {n}"
proof (rule ids_update_node[OF _ assms(1)])
  fix e assume e: "e \<in> set (elems d)" "nid e = i"
  from distinct_sub[OF e(1) assms(1)] have "distinct (ids e)" .
  moreover from elems_trans[OF e(1)] assms(2) have "n \<notin> set (ids e)" by (auto simp: ids_def)
  ultimately show "distinct (ids (appendChild (new_badge n) e)) \<and>
      set (ids (appendChild (new_badge n) e)) \<subseteq> set (ids e) \<union> {n}"
    by (auto simp: ids_appendChild)
next
  show "{n} \<inter> set (ids d) = {}" using assms(2) by simp
qed

lemma badge_class_new_badge [simp]: "matches_compound [Class ''cart-count-badge''] (new_badge n)"
  by (simp add: matches_compound_def classList_def getAttribute_def is_html_space_def)

lemma header_found:
  assumes "distinct (ids d)" and "querySelector (Sel c) d = Some h" and "i \<in> set (ids h)"
    and "\<And>x. tag (g x) = tag x \<and> attrs (g x) = attrs x"
  shows "querySelector (Sel c) (update_node i g d) = Some (update_node i g h)"
  using find_update_node[of "matches_compound c" g d h i, OF matches_compound_shallow assms(4) assms(1)]
        assms(2,3)
  by (simp add: querySelector_Sel)

text \<open>Updating the badge that the lookup finds: the lookup finds the updated badge.\<close>

lemma header_badge_update:
  assumes d: "distinct (ids d)"
    and h: "querySelector (Sel [Class ''header--cart'']) d = Some h"
    and b: "element_querySelector [Class ''cart-count-badge''] h = Some b"
    and g: "\<And>x. tag (g x) = tag x \<and> attrs (g x) = attrs x"
  shows "querySelector (Sel [Class ''header--cart'']) (update_node (nid b) g d) = Some (update_node (nid b) g h)"
    and "element_querySelector [Class ''cart-count-badge''] (update_node (nid b) g h) = Some (g b)"
proof -
  let ?u = "update_node (nid b) g"
  from h have hd: "h \<in> set (elems d)" by (auto simp: querySelector_Sel dest: find_Some_set)
  from b have bf: "find (matches_compound [Class ''cart-count-badge'']) (concat (map elems (kids h))) = Some b"
    by (simp add: element_querySelector_def)
  then have bk: "b \<in> set (concat (map elems (kids h)))" by (blast dest: find_Some_set)
  then have bh: "b \<in> set (elems h)" by (simp add: elems_unfold[of h])
  from forest_ids_sub[OF bk] have bkid: "nid b \<in> set (kid_ids h)"
    by (auto simp: kid_ids_def ids_unfold[of b])
  then have bi: "nid b \<in> set (ids h)" by (simp add: ids_unfold[of h])
  show "querySelector (Sel [Class ''header--cart'']) (?u d) = Some (?u h)"
    by (rule header_found[OF d h bi g])
  have dh: "distinct (ids h)" by (rule distinct_sub[OF hd d])
  then have neq: "nid h \<noteq> nid b" and dk: "distinct (concat (map ids (kids h)))"
    using bkid by (auto simp: ids_unfold[of h] kid_ids_def)
  have db: "distinct (ids b)" by (rule distinct_sub[OF bh dh])
  then have self: "?u b = g b" by (intro update_node_self) (simp add: ids_unfold[of b])
  have kh: "kids (?u h) = map ?u (kids h)"
    using neq by (cases h) (simp add: Let_def)
  have "find (matches_compound [Class ''cart-count-badge'']) (concat (map elems (map ?u (kids h)))) = Some (?u b)"
  proof (rule find_update_forest[OF _ dk bf])
    show "nid b \<in> set (ids b)" by (simp add: ids_unfold[of b])
  next
    fix k h' assume "k \<in> set (kids h)" "distinct (ids k)"
      "find (matches_compound [Class ''cart-count-badge'']) (elems k) = Some h'" "nid b \<in> set (ids h')"
    then show "find (matches_compound [Class ''cart-count-badge'']) (elems (?u k)) = Some (?u h')"
      using find_update_node[of "matches_compound [Class ''cart-count-badge'']" g k h' "nid b",
              OF matches_compound_shallow g] by simp
  qed
  then show "element_querySelector [Class ''cart-count-badge''] (?u h) = Some (g b)"
    by (simp add: element_querySelector_def kh self)
qed

lemma header_badge_update':
  assumes "distinct (ids d)"
    and "querySelector (Sel [Class ''header--cart'']) d = Some h"
    and "element_querySelector [Class ''cart-count-badge''] h = Some b"
    and "\<And>x. tag (g x) = tag x \<and> attrs (g x) = attrs x"
  shows "header_badge (update_node (nid b) g d) = Some (g b)"
  using header_badge_update[OF assms] by (simp add: header_badge_def)

text \<open>Appending a new badge to a header without one: the lookup finds the new badge.\<close>

lemma header_badge_append:
  assumes d: "distinct (ids d)"
    and h: "querySelector (Sel [Class ''header--cart'']) d = Some h"
    and b: "element_querySelector [Class ''cart-count-badge''] h = None"
  shows "querySelector (Sel [Class ''header--cart'']) (update_node (nid h) (appendChild (new_badge n)) d) =
           Some (appendChild (new_badge n) h)"
    and "element_querySelector [Class ''cart-count-badge''] (appendChild (new_badge n) h) = Some (new_badge n)"
proof -
  from h have hd: "h \<in> set (elems d)" by (auto simp: querySelector_Sel dest: find_Some_set)
  have dh: "distinct (ids h)" by (rule distinct_sub[OF hd d])
  then have self: "update_node (nid h) (appendChild (new_badge n)) h = appendChild (new_badge n) h"
    by (intro update_node_self) (simp add: ids_unfold[of h])
  have "querySelector (Sel [Class ''header--cart'']) (update_node (nid h) (appendChild (new_badge n)) d) =
           Some (update_node (nid h) (appendChild (new_badge n)) h)"
    by (rule header_found[OF d h]) (simp_all add: ids_unfold[of h])
  then show "querySelector (Sel [Class ''header--cart'']) (update_node (nid h) (appendChild (new_badge n)) d) =
           Some (appendChild (new_badge n) h)" by (simp add: self)
  from b show "element_querySelector [Class ''cart-count-badge''] (appendChild (new_badge n) h) = Some (new_badge n)"
    by (simp add: element_querySelector_def find_append)
qed

lemma badge_shown_lookup:
  assumes d: "distinct (ids d)"
    and h: "querySelector (Sel [Class ''header--cart'']) d = Some h"
    and b: "element_querySelector [Class ''cart-count-badge''] h = Some b"
  shows "\<exists>b'. header_badge (badge_shown c (nid b) d) = Some b' \<and> nid b' = nid b \<and>
              style_property b' ''display'' = Some (if 0 < c then ''flex'' else ''none'') \<and>
              (0 < c \<longrightarrow> chars b' = show_int c \<and> kids b' = [])"
    and "distinct (ids (badge_shown c (nid b) d))"
    and "set (ids (badge_shown c (nid b) d)) \<subseteq> set (ids d)"
proof -
  let ?t = "set_textContent (show_int c)"
  let ?d2 = "update_node (nid b) ?t d"
  have ids_style: "ids (update_node i (set_style_property p v) x) = ids x" for i p v x
    by (rule ids_update_shallow) simp_all
  have d2: "distinct (ids ?d2)" "set (ids ?d2) \<subseteq> set (ids d)"
    using distinct_textContent[OF d, of "nid b" "show_int c"] by auto
  show "distinct (ids (badge_shown c (nid b) d))" "set (ids (badge_shown c (nid b) d)) \<subseteq> set (ids d)"
    using d d2 by (auto simp: badge_shown_def ids_style)
  show "\<exists>b'. header_badge (badge_shown c (nid b) d) = Some b' \<and> nid b' = nid b \<and>
              style_property b' ''display'' = Some (if 0 < c then ''flex'' else ''none'') \<and>
              (0 < c \<longrightarrow> chars b' = show_int c \<and> kids b' = [])"
  proof (cases "0 < c")
    case False
    have "header_badge (update_node (nid b) (set_style_property ''display'' ''none'') d) =
            Some (set_style_property ''display'' ''none'' b)"
      by (rule header_badge_update'[OF d h b]) simp
    with False show ?thesis by (simp add: badge_shown_def)
  next
    case True
    have h2: "querySelector (Sel [Class ''header--cart'']) ?d2 = Some (update_node (nid b) ?t h)"
      and b2: "element_querySelector [Class ''cart-count-badge''] (update_node (nid b) ?t h) = Some (?t b)"
      using header_badge_update[OF d h b, of ?t] by simp_all
    have "header_badge (update_node (nid (?t b)) (set_style_property ''display'' ''flex'') ?d2) =
            Some (set_style_property ''display'' ''flex'' (?t b))"
      by (rule header_badge_update'[OF d2(1) h2 b2]) simp
    with True show ?thesis by (simp add: badge_shown_def)
  qed
qed

lemma update_header_badge_found:
  assumes "querySelector (Sel [Class ''header--cart'']) (document w) = Some h"
    and "element_querySelector [Class ''cart-count-badge''] h = Some b"
  shows "update_header_badge c w = w\<lparr>document := badge_shown c (nid b) (document w)\<rparr>"
  using assms by (simp add: update_header_badge_def badge_shown_def mutate_def)

lemma update_header_badge_created:
  assumes "querySelector (Sel [Class ''header--cart'']) (document w) = Some h"
    and "element_querySelector [Class ''cart-count-badge''] h = None"
  shows "update_header_badge c w =
           w\<lparr>document := badge_shown c (next_id w)
                 (update_node (nid h) (appendChild (new_badge (next_id w))) (document w)),
             next_id := Suc (next_id w)\<rparr>"
  using assms by (simp add: update_header_badge_def badge_shown_def mutate_def)

lemma header_badge_step:
  assumes wf: "wf_world w"
    and h: "querySelector (Sel [Class ''header--cart'']) (document w) = Some h"
  shows "\<exists>b'. header_badge (document (update_header_badge c w)) = Some b' \<and>
              nid b' = (case header_badge (document w) of Some b \<Rightarrow> nid b | None \<Rightarrow> next_id w) \<and>
              style_property b' ''display'' = Some (if 0 < c then ''flex'' else ''none'') \<and>
              (0 < c \<longrightarrow> chars b' = show_int c \<and> kids b' = [])"
    and "wf_world (update_header_badge c w)"
    and "next_id (update_header_badge c w) =
           (case header_badge (document w) of Some b \<Rightarrow> next_id w | None \<Rightarrow> Suc (next_id w))"
proof -
  let ?d = "document w" and ?n = "next_id w"
  from wf have dist: "distinct (ids ?d)" and below: "\<forall>i\<in>set (ids ?d). i < ?n"
    by (simp_all add: wf_world_def list_all_iff)
  have hb: "header_badge ?d = element_querySelector [Class ''cart-count-badge''] h"
    using h by (simp add: header_badge_def)
  have "(\<exists>b'. header_badge (document (update_header_badge c w)) = Some b' \<and>
              nid b' = (case header_badge (document w) of Some b \<Rightarrow> nid b | None \<Rightarrow> next_id w) \<and>
              style_property b' ''display'' = Some (if 0 < c then ''flex'' else ''none'') \<and>
              (0 < c \<longrightarrow> chars b' = show_int c \<and> kids b' = [])) \<and>
        wf_world (update_header_badge c w) \<and>
        next_id (update_header_badge c w) =
           (case header_badge (document w) of Some b \<Rightarrow> next_id w | None \<Rightarrow> Suc (next_id w))"
  proof (cases "element_querySelector [Class ''cart-count-badge''] h")
    case (Some b)
    note eq = update_header_badge_found[OF h Some, of c]
    from badge_shown_lookup[OF dist h Some, of c] below
    show ?thesis by (auto simp add: eq hb Some wf_world_def list_all_iff)
  next
    case None
    let ?nb = "new_badge ?n"
    let ?d2 = "update_node (nid h) (appendChild ?nb) ?d"
    note eq = update_header_badge_created[OF h None, of c]
    from below have fresh: "?n \<notin> set (ids ?d)" by auto
    from distinct_appendChild[OF dist fresh, of "nid h"]
    have d2: "distinct (ids ?d2)" and s2: "set (ids ?d2) \<subseteq> set (ids ?d) \<union> {?n}" by auto
    note q = header_badge_append[OF dist h None, of ?n]
    from badge_shown_lookup[OF d2 q, of c] s2 below
    show ?thesis by (auto simp add: eq hb None wf_world_def list_all_iff less_Suc_eq)
  qed
  then show "\<exists>b'. header_badge (document (update_header_badge c w)) = Some b' \<and>
              nid b' = (case header_badge (document w) of Some b \<Rightarrow> nid b | None \<Rightarrow> next_id w) \<and>
              style_property b' ''display'' = Some (if 0 < c then ''flex'' else ''none'') \<and>
              (0 < c \<longrightarrow> chars b' = show_int c \<and> kids b' = [])"
    and "wf_world (update_header_badge c w)"
    and "next_id (update_header_badge c w) =
           (case header_badge (document w) of Some b \<Rightarrow> next_id w | None \<Rightarrow> Suc (next_id w))"
    by blast+
qed

lemma class_match_cong:
  "getAttribute x ''class'' = getAttribute y ''class'' \<Longrightarrow>
   matches_compound [Class c] x = matches_compound [Class c] y"
  by (simp add: matches_compound_def classList_def)

lemma class_match_update_all:
  "matches_compound [Class c] (update_all (setAttribute count_attr v) es x) = matches_compound [Class c] x"
  by (rule class_match_cong) (simp add: getAttribute_def attrs_update_all_setAttribute update_conv')

lemma find_class_update_all:
  "find (matches_compound [Class c]) (map (update_all (setAttribute count_attr v) es) xs) =
   map_option (update_all (setAttribute count_attr v) es) (find (matches_compound [Class c]) xs)"
  by (simp add: find_map_option class_match_update_all)

lemma querySelector_update_all:
  "querySelector (Sel [Class c]) (update_all (setAttribute count_attr v) es d) =
   map_option (update_all (setAttribute count_attr v) es) (querySelector (Sel [Class c]) d)"
  by (simp add: querySelector_Sel elems_update_all find_class_update_all)

lemma element_querySelector_update_all:
  "element_querySelector [Class c] (update_all (setAttribute count_attr v) es h) =
   map_option (update_all (setAttribute count_attr v) es) (element_querySelector [Class c] h)"
proof -
  let ?U = "update_all (setAttribute count_attr v) es"
  have "concat (map elems (map ?U (kids h))) = map ?U (concat (map elems (kids h)))"
    by (simp add: map_concat o_def elems_update_all)
  then show ?thesis
    by (simp add: element_querySelector_def kids_update_all find_class_update_all)
qed

lemma header_badge_update_all:
  "header_badge (update_all (setAttribute count_attr v) es d) =
   map_option (update_all (setAttribute count_attr v) es) (header_badge d)"
  by (simp add: header_badge_def querySelector_update_all element_querySelector_update_all
        split: option.splits)

lemma ids_update_all: "ids (update_all (setAttribute n v) es d) = ids d"
  by (simp add: ids_def elems_update_all o_def nid_update_all)

lemma wf_world_update_all:
  "wf_world w \<Longrightarrow> wf_world (w\<lparr>document := update_all (setAttribute n v) es (document w)\<rparr>)"
  by (simp add: wf_world_def ids_update_all)

lemma count_displays_after:
  assumes "x \<in> set (elems (document (updateCartCount c w)))"
  shows "getAttribute x count_attr = None \<or> getAttribute x count_attr = Some (show_int c)"
proof -
  let ?Q = "\<lambda>a. map_of a count_attr = None \<or> map_of a count_attr = Some (show_int c)"
  let ?w1 = "w\<lparr>document := update_all (setAttribute count_attr (show_int c))
            (querySelectorAll (Sel [HasAttr count_attr]) (document w)) (document w)\<rparr>"
  have "\<forall>x\<in>set (elems (document ?w1)). ?Q (attrs x)"
    using count_displays_set[of _ count_attr "show_int c" "document w"]
    by (simp add: getAttribute_def)
  then have "\<forall>x\<in>set (elems (document (update_header_badge c ?w1))). ?Q (attrs x)"
    by (rule all_attrs_header_step) simp
  with assms show ?thesis by (simp add: updateCartCount_split getAttribute_def)
qed

lemma elems_update_textContent:
  "x' \<in> set (elems (update_node i (set_textContent str) d)) \<Longrightarrow>
   \<exists>x\<in>set (elems d). x' = update_node i (set_textContent str) x"
proof (induction d)
  case (Element j t a s y ks)
  let ?d = "Element j t a s y ks"
  let ?u = "update_node i (set_textContent str)"
  show ?case
  proof (cases "x' = ?u ?d")
    case True
    then show ?thesis by (intro bexI[of _ ?d]) simp_all
  next
    case False
    with Element.prems have ij: "i \<noteq> j" by (auto simp: Let_def split: if_splits)
    with Element.prems False obtain k where k: "k \<in> set ks" "x' \<in> set (elems (?u k))"
      by (auto simp: Let_def)
    from Element.IH[OF k] obtain x where "x \<in> set (elems k)" "x' = ?u x" by blast
    with k(1) show ?thesis by auto
  qed
qed

lemma badge_shown_preimage:
  assumes "x' \<in> set (elems (badge_shown c i d))"
  shows "\<exists>x\<in>set (elems d). nid x' = nid x \<and> tag x' = tag x \<and> attrs x' = attrs x"
proof -
  let ?t = "update_node i (set_textContent (show_int c))"
  have sh: "nid (update_node i g x) = nid x \<and> tag (update_node i g x) = tag x \<and>
            attrs (update_node i g x) = attrs x"
    if "\<And>e. nid (g e) = nid e \<and> tag (g e) = tag e \<and> attrs (g e) = attrs e" for g x
    using that by (cases x) (simp add: Let_def)
  have st: "x' \<in> set (elems (update_node i (set_style_property p v) d')) \<Longrightarrow>
        \<exists>x\<in>set (elems d'). nid x' = nid x \<and> tag x' = tag x \<and> attrs x' = attrs x" for x' p v d'
    using sh[of "set_style_property p v"] by (auto simp: elems_update_shallow)
  have tx: "x' \<in> set (elems (?t d')) \<Longrightarrow>
        \<exists>x\<in>set (elems d'). nid x' = nid x \<and> tag x' = tag x \<and> attrs x' = attrs x" for x' d'
    using sh[of "set_textContent (show_int c)"] by (auto dest!: elems_update_textContent)
  show ?thesis
  proof (cases "0 < c")
    case True
    with assms obtain y where y: "y \<in> set (elems (?t d))" "nid x' = nid y \<and> tag x' = tag y \<and> attrs x' = attrs y"
      by (auto simp: badge_shown_def dest!: st)
    from tx[OF y(1)] y(2) show ?thesis by auto
  next
    case False
    with assms show ?thesis by (auto simp: badge_shown_def dest!: st)
  qed
qed

lemma forest_preimage:
  assumes "x' \<in> set (concat (map elems (map (badge_shown c i) ks)))"
  shows "\<exists>x\<in>set (concat (map elems ks)). nid x' = nid x \<and> tag x' = tag x \<and> attrs x' = attrs x"
proof -
  from assms obtain k where k: "k \<in> set ks" "x' \<in> set (elems (badge_shown c i k))" by auto
  from badge_shown_preimage[OF k(2)] k(1) show ?thesis by auto
qed

lemma length_filter_same_key:
  assumes "distinct (map f xs)" and "\<forall>x\<in>set xs. P x \<longrightarrow> f x = c"
  shows "length (filter P xs) \<le> 1"
proof -
  have d: "distinct (map f (filter P xs))" using assms(1) by (rule distinct_map_filter)
  have a: "\<forall>x\<in>set (filter P xs). f x = c" using assms(2) by simp
  show ?thesis
  proof (cases "filter P xs")
    case Nil then show ?thesis by simp
  next
    case (Cons x ys)
    show ?thesis
    proof (cases ys)
      case Nil with Cons show ?thesis by simp
    next
      case (Cons y zs)
      with \<open>filter P xs = x # ys\<close> d a show ?thesis by auto
    qed
  qed
qed

lemma find_filter_hd: "find P xs = (case filter P xs of [] \<Rightarrow> None | x # _ \<Rightarrow> Some x)"
  by (induction xs) auto

lemma header_badges_hd:
  "header_badge d = (case header_badges d of [] \<Rightarrow> None | b # _ \<Rightarrow> Some b)"
  by (simp add: header_badge_def header_badges_def element_querySelector_def find_filter_hd
        split: option.splits)

lemma kid_ids_map: "kid_ids h = map nid (concat (map elems (kids h)))"
  by (simp add: kid_ids_def ids_def[abs_def] map_concat o_def)

lemma badge_shown_header:
  assumes d: "distinct (ids d)"
    and h: "querySelector (Sel [Class ''header--cart'']) d = Some h"
    and b: "element_querySelector [Class ''cart-count-badge''] h = Some b"
  shows "querySelector (Sel [Class ''header--cart'']) (badge_shown c (nid b) d) =
           Some (badge_shown c (nid b) h)"
    and "kids (badge_shown c (nid b) h) = map (badge_shown c (nid b)) (kids h)"
proof -
  let ?t = "set_textContent (show_int c)"
  from h have hd: "h \<in> set (elems d)" by (auto simp: querySelector_Sel dest: find_Some_set)
  from b have "b \<in> set (concat (map elems (kids h)))"
    by (auto simp: element_querySelector_def dest: find_Some_set)
  from forest_ids_sub[OF this] have bkid: "nid b \<in> set (kid_ids h)"
    by (auto simp: kid_ids_def ids_unfold[of b])
  have "distinct (ids h)" by (rule distinct_sub[OF hd d])
  with bkid have neq: "nid h \<noteq> nid b" by (auto simp: ids_unfold[of h])
  have k: "kids (update_node (nid b) g x) = map (update_node (nid b) g) (kids x)"
    if "nid x = nid h" for g x using that neq by (cases x) (simp add: Let_def)
  have n: "nid (update_node (nid b) g x) = nid x" if "\<And>e. nid (g e) = nid e" for g x
    using that by (rule nid_update_node)
  show "kids (badge_shown c (nid b) h) = map (badge_shown c (nid b)) (kids h)"
    by (simp add: badge_shown_def[abs_def] k n)
  have d2: "distinct (ids (update_node (nid b) ?t d))"
    using distinct_textContent[OF d] by blast
  have h2: "querySelector (Sel [Class ''header--cart'']) (update_node (nid b) ?t d) =
          Some (update_node (nid b) ?t h)"
    and b2: "element_querySelector [Class ''cart-count-badge''] (update_node (nid b) ?t h) = Some (?t b)"
    using header_badge_update[OF d h b, of ?t] by simp_all
  show "querySelector (Sel [Class ''header--cart'']) (badge_shown c (nid b) d) =
           Some (badge_shown c (nid b) h)"
    using header_badge_update(1)[OF d h b, of "set_style_property ''display'' ''none''"]
          header_badge_update(1)[OF d2 h2 b2, of "set_style_property ''display'' ''flex''"]
    by (simp add: badge_shown_def)
qed

text \<open>Every badge under the header after the update comes from a badge under it before.\<close>

lemma header_badges_shown:
  assumes d: "distinct (ids d)"
    and h: "querySelector (Sel [Class ''header--cart'']) d = Some h"
    and b: "element_querySelector [Class ''cart-count-badge''] h = Some b"
    and x: "x' \<in> set (header_badges (badge_shown c (nid b) d))"
  shows "\<exists>x\<in>set (header_badges d). nid x' = nid x"
proof -
  note hs = badge_shown_header[OF d h b, of c]
  from x have x1: "x' \<in> set (concat (map elems (map (badge_shown c (nid b)) (kids h))))"
    and x2: "matches_compound [Class ''cart-count-badge''] x'"
    by (simp_all add: header_badges_def hs)
  from forest_preimage[OF x1] obtain y where y: "y \<in> set (concat (map elems (kids h)))"
    "nid x' = nid y" "tag x' = tag y" "attrs x' = attrs y" by blast
  from x2 matches_compound_shallow[OF y(3,4)] have "matches_compound [Class ''cart-count-badge''] y" by simp
  with y(1,2) h show ?thesis by (auto simp: header_badges_def)
qed

lemma header_badges_at_most_one:
  assumes d': "distinct (ids d')" and "header_badge d' = Some b'"
    and "\<forall>x\<in>set (header_badges d'). nid x = nid b'"
  shows "length (header_badges d') = 1"
proof -
  from assms(2) obtain h' where h': "querySelector (Sel [Class ''header--cart'']) d' = Some h'"
    by (auto simp: header_badge_def split: option.splits)
  then have "h' \<in> set (elems d')" by (auto simp: querySelector_Sel dest: find_Some_set)
  from distinct_sub[OF this d'] have "distinct (kid_ids h')" by (simp add: ids_unfold[of h'])
  then have dk: "distinct (map nid (concat (map elems (kids h'))))" by (simp add: kid_ids_map)
  let ?P = "matches_compound [Class ''cart-count-badge'']"
  have "\<forall>x\<in>set (concat (map elems (kids h'))). ?P x \<longrightarrow> nid x = nid b'"
    using assms(3) h' by (simp add: header_badges_def)
  from length_filter_same_key[OF dk this] have "length (header_badges d') \<le> 1"
    using h' by (simp add: header_badges_def)
  moreover from assms(2) have "header_badges d' \<noteq> []"
    by (auto simp: header_badges_hd)
  ultimately show ?thesis by (cases "header_badges d'") auto
qed

lemma header_badges_update_all:
  "header_badges (update_all (setAttribute count_attr v) es d) =
   map (update_all (setAttribute count_attr v) es) (header_badges d)"
proof -
  let ?U = "update_all (setAttribute count_attr v) es"
  have "concat (map elems (map ?U (kids h))) = map ?U (concat (map elems (kids h)))" for h
    by (simp add: map_concat o_def elems_update_all)
  then show ?thesis
    by (simp add: header_badges_def querySelector_update_all kids_update_all filter_map o_def
          class_match_update_all split: option.splits)
qed

lemma header_badges_step:
  assumes wf: "wf_world w"
    and h: "querySelector (Sel [Class ''header--cart'']) (document w) = Some h"
    and one: "length (header_badges (document w)) \<le> 1"
  shows "length (header_badges (document (update_header_badge c w))) = 1"
proof -
  let ?d = "document w" and ?n = "next_id w"
  let ?d' = "document (update_header_badge c w)"
  from wf have dist: "distinct (ids ?d)" and below: "\<forall>i\<in>set (ids ?d). i < ?n"
    by (simp_all add: wf_world_def list_all_iff)
  from header_badge_step[OF wf h, of c] obtain b' where
    b': "header_badge ?d' = Some b'"
        "nid b' = (case header_badge ?d of Some b \<Rightarrow> nid b | None \<Rightarrow> ?n)"
    and wf': "wf_world (update_header_badge c w)" by blast
  from wf' have dist': "distinct (ids ?d')" by (simp add: wf_world_def)
  have hb: "header_badge ?d = element_querySelector [Class ''cart-count-badge''] h"
    using h by (simp add: header_badge_def)
  have "\<forall>x\<in>set (header_badges ?d'). nid x = nid b'"
  proof (cases "element_querySelector [Class ''cart-count-badge''] h")
    case (Some b)
    with hb one have hbs: "header_badges ?d = [b]"
      by (cases "header_badges ?d") (auto simp: header_badges_hd)
    show ?thesis
      using header_badges_shown[OF dist h Some, of _ c] b'(2)
      by (auto simp add: update_header_badge_found[OF h Some] hbs hb Some)
  next
    case None
    let ?nb = "new_badge ?n"
    let ?d2 = "update_node (nid h) (appendChild ?nb) ?d"
    from below have fresh: "?n \<notin> set (ids ?d)" by auto
    from distinct_appendChild[OF dist fresh, of "nid h"] have d2: "distinct (ids ?d2)" by blast
    note q = header_badge_append[OF dist h None, of ?n]
    from None hb have "header_badges ?d = []"
      by (cases "header_badges ?d") (auto simp: header_badges_hd)
    with h have "filter (matches_compound [Class ''cart-count-badge'']) (concat (map elems (kids h))) = []"
      by (simp add: header_badges_def)
    then have hbs2: "header_badges ?d2 = [?nb]"
      by (simp add: header_badges_def q(1))
    show ?thesis
      using header_badges_shown[OF d2 q, of _ c] b'(2)
      by (auto simp add: update_header_badge_created[OF h None] hbs2 hb None)
  qed
  from header_badges_at_most_one[OF dist' b'(1) this] show ?thesis .
qed

text \<open>One update, on a page with a header and at most one badge under it.\<close>

lemma updateCartCount_badge_step:
  assumes wf: "wf_world w"
    and h: "querySelector (Sel [Class ''header--cart'']) (document w) \<noteq> None"
    and one: "length (header_badges (document w)) \<le> 1"
  shows "length (header_badges (document (updateCartCount c w))) = 1"
    and "map_option nid (header_badge (document (updateCartCount c w))) =
           Some (case header_badge (document w) of Some b \<Rightarrow> nid b | None \<Rightarrow> next_id w)"
    and "c \<le> 0 \<longrightarrow> map_option (\<lambda>b. style_property b ''display'')
                         (header_badge (document (updateCartCount c w))) = Some (Some ''none'')"
    and "wf_world (updateCartCount c w)"
    and "querySelector (Sel [Class ''header--cart'']) (document (updateCartCount c w)) \<noteq> None"
    and "next_id (updateCartCount c w) =
           (case header_badge (document w) of Some b \<Rightarrow> next_id w | None \<Rightarrow> Suc (next_id w))"
proof -
  let ?es = "querySelectorAll (Sel [HasAttr count_attr]) (document w)"
  let ?U = "update_all (setAttribute count_attr (show_int c)) ?es"
  let ?w1 = "w\<lparr>document := ?U (document w)\<rparr>"
  have split: "updateCartCount c w = update_header_badge c ?w1" by (rule updateCartCount_split)
  have wf1: "wf_world ?w1" by (rule wf_world_update_all[OF wf])
  from h obtain hd where "querySelector (Sel [Class ''header--cart'']) (document w) = Some hd" by blast
  then have h1: "querySelector (Sel [Class ''header--cart'']) (document ?w1) = Some (?U hd)"
    by (simp add: querySelector_update_all)
  have one1: "length (header_badges (document ?w1)) \<le> 1"
    using one by (simp add: header_badges_update_all)
  have ids1: "(case header_badge (document ?w1) of Some b \<Rightarrow> nid b | None \<Rightarrow> next_id ?w1) =
              (case header_badge (document w) of Some b \<Rightarrow> nid b | None \<Rightarrow> next_id w)"
    by (simp add: header_badge_update_all nid_update_all split: option.splits)
  have nx1: "(case header_badge (document ?w1) of Some b \<Rightarrow> next_id ?w1 | None \<Rightarrow> Suc (next_id ?w1)) =
              (case header_badge (document w) of Some b \<Rightarrow> next_id w | None \<Rightarrow> Suc (next_id w))"
    by (simp add: header_badge_update_all split: option.splits)
  note st = header_badge_step[OF wf1 h1, of c]
  show "length (header_badges (document (updateCartCount c w))) = 1"
    unfolding split by (rule header_badges_step[OF wf1 h1 one1])
  show "map_option nid (header_badge (document (updateCartCount c w))) =
           Some (case header_badge (document w) of Some b \<Rightarrow> nid b | None \<Rightarrow> next_id w)"
    using st(1) unfolding split ids1 by auto
  show "c \<le> 0 \<longrightarrow> map_option (\<lambda>b. style_property b ''display'')
                         (header_badge (document (updateCartCount c w))) = Some (Some ''none'')"
    using st(1) unfolding split by auto
  show "wf_world (updateCartCount c w)" unfolding split by (rule st(2))
  show "querySelector (Sel [Class ''header--cart'']) (document (updateCartCount c w)) \<noteq> None"
    using st(1) unfolding split by (auto simp: header_badge_def split: option.splits)
  show "next_id (updateCartCount c w) =
           (case header_badge (document w) of Some b \<Rightarrow> next_id w | None \<Rightarrow> Suc (next_id w))"
    using st(3) unfolding split nx1 .
qed

lemma updateCartCount_badge_run:
  assumes "wf_world w"
    and "querySelector (Sel [Class ''header--cart'']) (document w) \<noteq> None"
    and "length (header_badges (document w)) = 1"
  shows "length (header_badges (document (foldl (\<lambda>w' c'. updateCartCount c' w') w cs))) = 1 \<and>
         map_option nid (header_badge (document (foldl (\<lambda>w' c'. updateCartCount c' w') w cs))) =
           map_option nid (header_badge (document w))"
  using assms
proof (induction cs arbitrary: w)
  case Nil
  then show ?case by simp
next
  case (Cons c cs)
  from Cons.prems(3) have le: "length (header_badges (document w)) \<le> 1" by simp
  note st = updateCartCount_badge_step[OF Cons.prems(1,2) le, of c]
  from Cons.prems(3) obtain b where "header_badge (document w) = Some b"
    by (cases "header_badges (document w)") (auto simp: header_badges_hd)
  with st(2) have "map_option nid (header_badge (document (updateCartCount c w))) =
      map_option nid (header_badge (document w))" by simp
  with Cons.IH[OF st(4,5,1)] show ?case by simp
qed

section \<open>Refreshing and opening the drawer\<close>

text \<open>
  C1, as the code has it. When the sections request is rejected or its body does not
  parse, \<open>refreshAndOpenCartDrawer\<close> catches the failure and logs it, and does nothing
  else: the call of \<open>openCartDrawer\<close> sits inside the \<^verbatim>\<open>try\<close> block and is skipped.
  When the response parses, \<open>openCartDrawer\<close> runs whether or not the merge took place:
  on the world after the request when the section entry is missing or either
  \<^verbatim>\<open>cart-element\<close> is not found, and on the merged world when both are found.
\<close>

theorem refreshAndOpenCartDrawer_outcomes:
  "refreshAndOpenCartDrawer Rejected w =
     w\<lparr>effects := effects w @ [Fetch (Get (origin w @ ''/?sections=cart-drawer'')),
                               ConsoleError ''Error refreshing cart:'' (Some NetworkFailure)]\<rparr> \<and>
   refreshAndOpenCartDrawer (Response ok None) w =
     w\<lparr>effects := effects w @ [Fetch (Get (origin w @ ''/?sections=cart-drawer'')),
                               ConsoleError ''Error refreshing cart:'' (Some ParseFailure)]\<rparr> \<and>
   refreshAndOpenCartDrawer (Response ok (Some None)) w =
     openCartDrawer (emit (Fetch (Get (origin w @ ''/?sections=cart-drawer''))) w) \<and>
   (querySelector (Sel [Tag ''cart-element'']) doc = None \<or>
    querySelector (Desc [AttrEq ''data-drawer-view'' ''cart-drawer''] [Tag ''cart-element''])
      (document w) = None \<longrightarrow>
    refreshAndOpenCartDrawer (Response ok (Some (Some doc))) w =
      openCartDrawer (emit (Fetch (Get (origin w @ ''/?sections=cart-drawer''))) w)) \<and>
   (querySelector (Sel [Tag ''cart-element'']) doc = Some newCartElement \<and>
    querySelector (Desc [AttrEq ''data-drawer-view'' ''cart-drawer''] [Tag ''cart-element''])
      (document w) = Some currentCartElement \<longrightarrow>
    refreshAndOpenCartDrawer (Response ok (Some (Some doc))) w =
      openCartDrawer (mergeCartElement newCartElement currentCartElement
         (emit (Fetch (Get (origin w @ ''/?sections=cart-drawer''))) w)))"
  by (auto simp add: refreshAndOpenCartDrawer_def Let_def emit_def split: option.splits)

theorem refreshAndOpenCartDrawer_outcomes_witness:
  "querySelector (Sel [Tag ''cart-element'']) example_fragment =
     Some (Element 2 ''cart-element'' [(''data-b'', ''3''), (''data-c'', ''4'')] None ''new''
          [Element 3 ''ul'' [] None [] []]) \<and>
   querySelector (Desc [AttrEq ''data-drawer-view'' ''cart-drawer''] [Tag ''cart-element''])
      (document example_world) =
     Some (Element 6 ''cart-element'' [(''data-a'', ''1''), (''data-b'', ''2'')] None ''old''
              [Element 7 ''p'' [] None ''empty'' []]) \<and>
   refreshAndOpenCartDrawer (Response True (Some (Some example_fragment))) example_world =
      openCartDrawer (mergeCartElement
         (Element 2 ''cart-element'' [(''data-b'', ''3''), (''data-c'', ''4'')] None ''new''
          [Element 3 ''ul'' [] None [] []])
         (Element 6 ''cart-element'' [(''data-a'', ''1''), (''data-b'', ''2'')] None ''old''
              [Element 7 ''p'' [] None ''empty'' []])
         (emit (Fetch (Get ''https://shop.example/?sections=cart-drawer'')) example_world)) \<and>
   querySelector (Sel [Tag ''cart-element'']) link_only_page = None \<and>
   refreshAndOpenCartDrawer (Response True (Some (Some link_only_page))) example_world =
      openCartDrawer (emit (Fetch (Get ''https://shop.example/?sections=cart-drawer'')) example_world)"
proof -
  have q1: "querySelector (Sel [Tag ''cart-element'']) example_fragment =
     Some (Element 2 ''cart-element'' [(''data-b'', ''3''), (''data-c'', ''4'')] None ''new''
          [Element 3 ''ul'' [] None [] []])"
    by (simp add: example_fragment_def querySelector_def matches_compound_def)
  have q2: "querySelector (Desc [AttrEq ''data-drawer-view'' ''cart-drawer''] [Tag ''cart-element''])
      (document example_world) =
     Some (Element 6 ''cart-element'' [(''data-a'', ''1''), (''data-b'', ''2'')] None ''old''
              [Element 7 ''p'' [] None ''empty'' []])"
    by (simp add: example_world_def example_page_def querySelector_def matches_compound_def getAttribute_def)
  have q3: "querySelector (Sel [Tag ''cart-element'']) link_only_page = None"
    by (simp add: link_only_page_def querySelector_def matches_compound_def)
  have o: "origin example_world = ''https://shop.example''" by (simp add: example_world_def)
  from refreshAndOpenCartDrawer_outcomes[of example_world True example_fragment _ _]
       refreshAndOpenCartDrawer_outcomes[of example_world True link_only_page undefined undefined]
       q1 q2 q3 o
  show ?thesis by simp
qed

text \<open>
  The property as the specification states it fails: on the example page, whose drawer
  \<open>openCartDrawer\<close> would open, a rejected sections request leaves the drawer closed;
  the only effects are the request and the console line.
\<close>

theorem refresh_rejected_counterexample:
  "drawer_of (document example_world) \<noteq> None \<and>
   body_overflow (openCartDrawer example_world) = ''hidden'' \<and>
   refreshAndOpenCartDrawer Rejected example_world =
     example_world\<lparr>effects := [Fetch (Get ''https://shop.example/?sections=cart-drawer''),
                                ConsoleError ''Error refreshing cart:'' (Some NetworkFailure)]\<rparr> \<and>
   body_overflow (refreshAndOpenCartDrawer Rejected example_world) = []"
  using example_drawer
  by (simp add: refreshAndOpenCartDrawer_def Let_def emit_def openCartDrawer_def example_world_def)

section \<open>The request of a form submission\<close>




section \<open>A failed mutation\<close>

text \<open>
  C3. When the add-item request returns a non-success HTTP status, \<open>addToCart\<close> fails
  with \<open>MutationFailed\<close>, and the world it leaves differs from the one it started in only
  by two effects: the add-item request itself and the console line. So no count-display
  attribute and no badge state changes (the document is the same), and neither the cart
  read nor the drawer refresh is requested. More generally the count update and the drawer
  refresh are reached only after a successful mutation: unless the add-item response has
  a success status and a body that parses, \<open>addToCart\<close> fails and leaves only those two
  effects.
\<close>

theorem addToCart_non_success:
  "(add_response env = Response False body \<longrightarrow>
      addToCart env variantId quantity w =
        (Some MutationFailed,
         w\<lparr>effects := effects w @
              [add_request variantId (parseInt quantity),
               ConsoleError ''Add to cart error:'' (Some MutationFailed)]\<rparr>)) \<and>
   (add_response env \<noteq> Response True (Some ()) \<longrightarrow>
      (\<exists>err. addToCart env variantId quantity w =
        (Some err,
         w\<lparr>effects := effects w @
              [add_request variantId (parseInt quantity),
               ConsoleError ''Add to cart error:'' (Some err)]\<rparr>)))"
proof (cases "add_response env")
  case Rejected
  then show ?thesis by (simp add: addToCart_def Let_def emit_def)
next
  case (Response ok b)
  then show ?thesis
    by (cases ok; cases b) (simp_all add: addToCart_def Let_def emit_def)
qed

theorem addToCart_non_success_witness:
  "add_response env_status_422 = Response False (Some ()) \<and>
   add_response env_status_422 \<noteq> Response True (Some ()) \<and>
   addToCart env_status_422 ''123'' (Str ''2'') example_world =
     (Some MutationFailed,
      example_world\<lparr>effects := effects example_world @
           [add_request ''123'' (parseInt (Str ''2'')),
            ConsoleError ''Add to cart error:'' (Some MutationFailed)]\<rparr>)"
  using addToCart_non_success [of env_status_422 "Some ()" "''123''" "Str ''2''" example_world]
  by (simp add: env_status_422_def)

section \<open>One badge, reused\<close>

text \<open>
  C4, as the code has it. On a well-formed page with a \<^verbatim>\<open>.header--cart\<close> element and at
  most one badge under it, after \<open>updateCartCount c\<close> exactly one badge is under the
  header: the badge that was there, the same node, or else a new node, created whatever
  the count is (also for \<open>c = 0\<close>). When \<open>c \<le> 0\<close> the badge is still found and its
  display is \<^verbatim>\<open>none\<close>. After any further updates there is still exactly one badge and it
  is still the same node.
\<close>

theorem badge_reused:
  assumes "wf_world w"
    and "querySelector (Sel [Class ''header--cart'']) (document w) \<noteq> None"
    and "length (header_badges (document w)) \<le> 1"
  shows "length (header_badges (document (updateCartCount c w))) = 1 \<and>
         map_option nid (header_badge (document (updateCartCount c w))) =
           Some (case header_badge (document w) of Some b \<Rightarrow> nid b | None \<Rightarrow> next_id w) \<and>
         (c \<le> 0 \<longrightarrow> map_option (\<lambda>b. style_property b ''display'')
                       (header_badge (document (updateCartCount c w))) = Some (Some ''none'')) \<and>
         length (header_badges (document (foldl (\<lambda>w' c'. updateCartCount c' w') (updateCartCount c w) cs))) = 1 \<and>
         map_option nid (header_badge (document (foldl (\<lambda>w' c'. updateCartCount c' w') (updateCartCount c w) cs))) =
           map_option nid (header_badge (document (updateCartCount c w)))"
  using updateCartCount_badge_step(1,2,3)[OF assms, of c]
        updateCartCount_badge_run[OF updateCartCount_badge_step(4,5,1)[OF assms, of c], of cs]
  by simp

theorem badge_reused_witness:
  "wf_world example_world \<and>
   querySelector (Sel [Class ''header--cart'']) (document example_world) \<noteq> None \<and>
   length (header_badges (document example_world)) \<le> 1 \<and>
   length (header_badges (document (updateCartCount 0 example_world))) = 1 \<and>
   map_option nid (header_badge (document (updateCartCount 0 example_world))) = Some 10 \<and>
   map_option (\<lambda>b. style_property b ''display'')
     (header_badge (document (updateCartCount 0 example_world))) = Some (Some ''none'') \<and>
   length (header_badges (document
     (foldl (\<lambda>w' c'. updateCartCount c' w') (updateCartCount 0 example_world) [3, 0]))) = 1 \<and>
   map_option nid (header_badge (document
     (foldl (\<lambda>w' c'. updateCartCount c' w') (updateCartCount 0 example_world) [3, 0]))) = Some 10"
proof -
  have a: "wf_world example_world" by code_simp
  have b: "querySelector (Sel [Class ''header--cart'']) (document example_world) \<noteq> None" by code_simp
  have c: "length (header_badges (document example_world)) \<le> 1" by code_simp
  have d: "header_badge (document example_world) = None" by code_simp
  have e: "next_id example_world = 10" by (simp add: example_world_def)
  from badge_reused[OF a b c, of 0 "[3, 0]"] a b c show ?thesis by (simp add: d e)
qed

text \<open>
  The property as the specification states it fails: the example page has a header and
  no badge, and an update with count 0 creates the badge (the node with the next unused
  identity, 10).
\<close>

theorem badge_created_at_zero_counterexample:
  "header_badge (document example_world) = None \<and>
   map_option nid (header_badge (document (updateCartCount 0 example_world))) = Some 10 \<and>
   length (header_badges (document (updateCartCount 0 example_world))) = 1"
  by code_simp

section \<open>Opening the drawer\<close>



section \<open>The count displays and the badge after an update\<close>

text \<open>
  C6. After \<open>updateCartCount N\<close> on a well-formed page, every element of the document
  that carries a \<^verbatim>\<open>data-cart-count\<close> attribute has the value \<^verbatim>\<open>String(N)\<close> there. If the
  page has a \<^verbatim>\<open>.header--cart\<close> element, the badge lookup then finds a badge; when
  \<open>N > 0\<close> its display is \<^verbatim>\<open>flex\<close> and its content is the text \<^verbatim>\<open>String(N)\<close>, and
  when \<open>N \<le> 0\<close> its display is \<^verbatim>\<open>none\<close>.
\<close>

theorem updateCartCount_count:
  assumes "wf_world w"
  shows "(\<forall>e\<in>set (querySelectorAll (Sel [HasAttr ''data-cart-count'']) (document (updateCartCount N w))).
            getAttribute e ''data-cart-count'' = Some (show_int N)) \<and>
         (querySelector (Sel [Class ''header--cart'']) (document w) \<noteq> None \<longrightarrow>
            (\<exists>badge. header_badge (document (updateCartCount N w)) = Some badge \<and>
               (0 < N \<longrightarrow> style_property badge ''display'' = Some ''flex'' \<and>
                          chars badge = show_int N \<and> kids badge = []) \<and>
               (N \<le> 0 \<longrightarrow> style_property badge ''display'' = Some ''none'')))"
proof -
  let ?es = "querySelectorAll (Sel [HasAttr count_attr]) (document w)"
  let ?U = "update_all (setAttribute count_attr (show_int N)) ?es"
  let ?w1 = "w\<lparr>document := ?U (document w)\<rparr>"
  have split: "updateCartCount N w = update_header_badge N ?w1" by (rule updateCartCount_split)
  have wf1: "wf_world ?w1" by (rule wf_world_update_all[OF assms])
  have 1: "\<forall>e\<in>set (querySelectorAll (Sel [HasAttr ''data-cart-count'']) (document (updateCartCount N w))).
            getAttribute e ''data-cart-count'' = Some (show_int N)"
  proof
    fix e assume "e \<in> set (querySelectorAll (Sel [HasAttr ''data-cart-count'']) (document (updateCartCount N w)))"
    then have "e \<in> set (elems (document (updateCartCount N w)))" "getAttribute e count_attr \<noteq> None"
      by (simp_all add: querySelectorAll_Sel matches_compound_def)
    with count_displays_after[of e N w] show "getAttribute e ''data-cart-count'' = Some (show_int N)"
      by blast
  qed
  have 2: "\<exists>badge. header_badge (document (updateCartCount N w)) = Some badge \<and>
               (0 < N \<longrightarrow> style_property badge ''display'' = Some ''flex'' \<and>
                          chars badge = show_int N \<and> kids badge = []) \<and>
               (N \<le> 0 \<longrightarrow> style_property badge ''display'' = Some ''none'')"
    if "querySelector (Sel [Class ''header--cart'']) (document w) \<noteq> None"
  proof -
    from that obtain h where "querySelector (Sel [Class ''header--cart'']) (document w) = Some h" by blast
    then have h1: "querySelector (Sel [Class ''header--cart'']) (document ?w1) = Some (?U h)"
      by (simp add: querySelector_update_all)
    from header_badge_step(1)[OF wf1 h1, of N] show ?thesis
      unfolding split by auto
  qed
  from 1 2 show ?thesis by blast
qed

theorem updateCartCount_count_witness:
  "wf_world example_world \<and>
   querySelector (Sel [Class ''header--cart'']) (document example_world) \<noteq> None \<and>
   querySelectorAll (Sel [HasAttr ''data-cart-count'']) (document (updateCartCount 3 example_world)) =
     [Element 3 ''a'' [(''href'', ''/cart''), (''data-cart-count'', ''3'')] None ''Cart'' []] \<and>
   getAttribute (Element 3 ''a'' [(''href'', ''/cart''), (''data-cart-count'', ''3'')] None ''Cart'' [])
     ''data-cart-count'' = Some ''3'' \<and>
   (\<exists>badge. header_badge (document (updateCartCount 3 example_world)) = Some badge \<and>
      style_property badge ''display'' = Some ''flex'' \<and> chars badge = ''3'' \<and> kids badge = [])"
proof -
  have a: "wf_world example_world" by code_simp
  have b: "querySelector (Sel [Class ''header--cart'']) (document example_world) \<noteq> None" by code_simp
  have c: "querySelectorAll (Sel [HasAttr ''data-cart-count'']) (document (updateCartCount 3 example_world)) =
     [Element 3 ''a'' [(''href'', ''/cart''), (''data-cart-count'', ''3'')] None ''Cart'' []]"
    by code_simp
  have d: "show_int 3 = ''3''" by code_simp
  from updateCartCount_count[OF a, of 3] a b c d show ?thesis by simp
qed

section \<open>Merging the drawer fragment\<close>

text \<open>
  C7. When the merge runs on a well-formed page, with the live \<^verbatim>\<open>cart-element\<close> an
  element of the page and the fragment's \<^verbatim>\<open>cart-element\<close> carrying distinct attribute
  names, the live element's reference still denotes an element afterwards, with the same
  identity and tag. Its text and children are those of the fragment's element (the
  children as new nodes), every attribute of the fragment's element has the fragment's
  value on it, and every attribute the fragment's element lacks is as it was before; the
  inline style is the fragment's when it has one and unchanged otherwise.
\<close>

theorem mergeCartElement_frame:
  assumes "wf_world w" and "currentCartElement \<in> set (elems (document w))"
    and "distinct (map fst (attrs newCartElement))"
  shows "\<exists>e. node_of (nid currentCartElement)
               (document (mergeCartElement newCartElement currentCartElement w)) = Some e \<and>
             nid e = nid currentCartElement \<and> tag e = tag currentCartElement \<and>
             chars e = chars newCartElement \<and>
             kids e = map (shift_ids (next_id w)) (kids newCartElement) \<and>
             (\<forall>n. getAttribute e n =
                    (case getAttribute newCartElement n of
                       Some v \<Rightarrow> Some v
                     | None \<Rightarrow> getAttribute currentCartElement n)) \<and>
             style e = (case style newCartElement of
                          Some ds \<Rightarrow> Some ds
                        | None \<Rightarrow> style currentCartElement)"
proof -
  let ?c = "nid currentCartElement"
  let ?w1 = "(mutate ?c (set_innerHTML (next_id w) newCartElement) w)
                 \<lparr>next_id := next_id w + id_bound (kids newCartElement)\<rparr>"
  let ?w2 = "foldl (\<lambda>w' (name, val). mutate ?c (setAttribute name val) w') ?w1 (attrs newCartElement)"
  let ?e1 = "set_innerHTML (next_id w) newCartElement currentCartElement"
  let ?e2 = "foldl (\<lambda>e' (name, val). setAttribute name val e') ?e1 (attrs newCartElement)"
  from assms(1) have dist: "distinct (ids (document w))"
    and below: "\<forall>i\<in>set (ids (document w)). i < next_id w"
    by (simp_all add: wf_world_def list_all_iff)
  from assms(2) have "?c \<in> set (ids (document w))" by (auto simp: ids_def)
  with below have lt: "?c < next_id w" by blast
  have n0: "node_of ?c (document w) = Some currentCartElement"
    by (rule node_of_distinct[OF dist assms(2)])
  have k0: "?c \<notin> set (kid_ids currentCartElement)"
    by (rule own_id_not_below[OF dist assms(2)])
  have n1: "node_of ?c (document ?w1) = Some ?e1"
    using node_of_update_same[of "set_innerHTML (next_id w) newCartElement", OF _ n0 k0] by simp
  have k1: "?c \<notin> set (kid_ids ?e1)"
    using kid_ids_innerHTML[of "next_id w" newCartElement currentCartElement] lt by auto
  have n2: "node_of ?c (document ?w2) = Some ?e2"
    by (rule foldl_setAttribute_node[OF n1 k1])
  have k2: "?c \<notin> set (kid_ids ?e2)"
    using k1 by (simp add: kid_ids_def foldl_setAttribute_fields)
  have g2: "getAttribute ?e2 n =
      (case getAttribute newCartElement n of Some v \<Rightarrow> Some v | None \<Rightarrow> getAttribute currentCartElement n)" for n
    using foldl_setAttribute_get[OF assms(3), of ?e1 n]
    by (simp add: getAttribute_def split: option.splits)
  show ?thesis
  proof (cases "style newCartElement")
    case None
    then have "mergeCartElement newCartElement currentCartElement w = ?w2"
      by (simp add: mergeCartElement_def Let_def)
    with n2 g2 None show ?thesis by (simp add: foldl_setAttribute_fields)
  next
    case (Some ds)
    then have eq: "mergeCartElement newCartElement currentCartElement w = mutate ?c (set_cssText ds) ?w2"
      by (simp add: mergeCartElement_def Let_def)
    have "node_of ?c (document (mutate ?c (set_cssText ds) ?w2)) = Some (set_cssText ds ?e2)"
      using node_of_update_same[of "set_cssText ds", OF _ n2 k2] by simp
    with g2 Some show ?thesis by (simp add: eq foldl_setAttribute_fields getAttribute_def)
  qed
qed

theorem mergeCartElement_frame_witness:
  "wf_world example_world \<and>
   Element 6 ''cart-element'' [(''data-a'', ''1''), (''data-b'', ''2'')] None ''old''
      [Element 7 ''p'' [] None ''empty'' []] \<in> set (elems (document example_world)) \<and>
   distinct (map fst [(''data-b'', ''3''), (''data-c'', ''4'')]) \<and>
   (\<exists>e. node_of 6 (document (mergeCartElement
              (Element 2 ''cart-element'' [(''data-b'', ''3''), (''data-c'', ''4'')] None ''new''
                 [Element 3 ''ul'' [] None [] []])
              (Element 6 ''cart-element'' [(''data-a'', ''1''), (''data-b'', ''2'')] None ''old''
                 [Element 7 ''p'' [] None ''empty'' []])
              example_world)) = Some e \<and>
        nid e = 6 \<and> tag e = ''cart-element'' \<and> chars e = ''new'' \<and>
        kids e = [Element 13 ''ul'' [] None [] []] \<and>
        getAttribute e ''data-a'' = Some ''1'' \<and> getAttribute e ''data-b'' = Some ''3'' \<and>
        getAttribute e ''data-c'' = Some ''4'' \<and> style e = None)"
proof -
  let ?new = "Element 2 ''cart-element'' [(''data-b'', ''3''), (''data-c'', ''4'')] None ''new''
                 [Element 3 ''ul'' [] None [] []]"
  let ?cur = "Element 6 ''cart-element'' [(''data-a'', ''1''), (''data-b'', ''2'')] None ''old''
                 [Element 7 ''p'' [] None ''empty'' []]"
  have a: "wf_world example_world"
    by (simp add: wf_world_def ids_def example_world_def example_page_def)
  have b: "?cur \<in> set (elems (document example_world))"
    by (simp add: example_world_def example_page_def)
  have c: "distinct (map fst (attrs ?new))" by simp
  from mergeCartElement_frame[OF a b c] obtain e where
    e: "node_of 6 (document (mergeCartElement ?new ?cur example_world)) = Some e"
       "nid e = 6" "tag e = ''cart-element''" "chars e = ''new''"
       "kids e = map (shift_ids (next_id example_world)) [Element 3 ''ul'' [] None [] []]"
       "\<And>n. getAttribute e n =
          (case getAttribute ?new n of Some v \<Rightarrow> Some v | None \<Rightarrow> getAttribute ?cur n)"
       "style e = None"
    by auto
  have "kids e = [Element 13 ''ul'' [] None [] []]"
    using e(5) by (simp add: example_world_def)
  moreover have "getAttribute e ''data-a'' = Some ''1''" "getAttribute e ''data-b'' = Some ''3''"
    "getAttribute e ''data-c'' = Some ''4''"
    using e(6)[of "''data-a''"] e(6)[of "''data-b''"] e(6)[of "''data-c''"]
    by (simp_all add: getAttribute_def)
  ultimately show ?thesis using a b e(1-4,7) by auto
qed

section \<open>A form without a variant identifier\<close>



section \<open>The busy state of a quick add\<close>

text \<open>
  C9. For a quick-add element of the page: when it has no \<^verbatim>\<open>data-id\<close> (or an empty one)
  or contains no button, \<open>handleQuickAdd\<close> changes nothing and issues no request. When it
  has both, \<open>addToCart\<close> is called in a world in which the element's \<^verbatim>\<open>aria-busy\<close> is
  \<^verbatim>\<open>true\<close> and the button is disabled, and nothing has been requested before that. If
  the call succeeds, the result is the pipeline's world with one more effect, a timer of
  1000 ms whose callback resets both; if it fails, the failure is logged and both are
  reset at once. The callback, whenever it runs, leaves the element not busy and the
  button enabled.
\<close>

theorem handleQuickAdd_busy:
  assumes "node_of (nid element) (document w) = Some element"
  shows
   "(getAttribute element ''data-id'' = None \<or> getAttribute element ''data-id'' = Some [] \<or>
     element_querySelector [Tag ''button''] element = None \<longrightarrow>
       handleQuickAdd env element w = w) \<and>
    (getAttribute element ''data-id'' = Some variantId \<and> variantId \<noteq> [] \<and>
     element_querySelector [Tag ''button''] element = Some button \<longrightarrow>
       (\<exists>w1. quick_add_busy (nid element) (nid button) (document w1) \<and> effects w1 = effects w \<and>
          (case addToCart env variantId (Num 1) w1 of
             (None, w2) \<Rightarrow>
               handleQuickAdd env element w =
                 emit (SetTimeout (ResetQuickAdd (nid element) (nid button)) 1000) w2
           | (Some err, w2) \<Rightarrow>
               effects (handleQuickAdd env element w) =
                 effects w2 @ [ConsoleError ''Quick add error:'' (Some err)] \<and>
               quick_add_idle (nid element) (nid button) (document (handleQuickAdd env element w))))) \<and>
    quick_add_idle (nid element) (nid button)
      (document (run_callback (ResetQuickAdd (nid element) (nid button)) u))"
proof -
  have noop: "getAttribute element ''data-id'' = None \<or> getAttribute element ''data-id'' = Some [] \<or>
     element_querySelector [Tag ''button''] element = None \<longrightarrow>
       handleQuickAdd env element w = w"
    by (auto simp: handleQuickAdd_def split: option.splits)
  have timer: "quick_add_idle (nid element) (nid button)
      (document (run_callback (ResetQuickAdd (nid element) (nid button)) u))"
    by (simp add: reset_idle)
  { assume v: "getAttribute element ''data-id'' = Some variantId" "variantId \<noteq> []"
      and b: "element_querySelector [Tag ''button''] element = Some button"
    let ?w1 = "mutate (nid button) (set_disabled True)
                 (mutate (nid element) (setAttribute ''aria-busy'' ''true'') w)"
    from assms have "element \<in> set (elems (document w))"
      by (auto simp: node_of_def dest: find_Some_set)
    with element_querySelector_in[OF b] elems_trans have "button \<in> set (elems (document w))" by blast
    from node_of_exists[OF this] obtain y where y: "node_of (nid button) (document w) = Some y" by blast
    have busy: "quick_add_busy (nid element) (nid button) (document ?w1)"
      using mark_busy[OF assms y] by simp
    obtain r w2 where r: "addToCart env variantId (Num 1) ?w1 = (r, w2)"
      by (cases "addToCart env variantId (Num 1) ?w1")
    have "case addToCart env variantId (Num 1) ?w1 of
             (None, w2) \<Rightarrow>
               handleQuickAdd env element w =
                 emit (SetTimeout (ResetQuickAdd (nid element) (nid button)) 1000) w2
           | (Some err, w2) \<Rightarrow>
               effects (handleQuickAdd env element w) =
                 effects w2 @ [ConsoleError ''Quick add error:'' (Some err)] \<and>
               quick_add_idle (nid element) (nid button) (document (handleQuickAdd env element w))"
    proof (cases r)
      case None
      with r v b show ?thesis by (simp add: handleQuickAdd_def Let_def)
    next
      case (Some err)
      with r v b have eq: "handleQuickAdd env element w =
          mutate (nid button) (set_disabled False)
            (mutate (nid element) (setAttribute ''aria-busy'' ''false'')
               (emit (ConsoleError ''Quick add error:'' (Some err)) w2))"
        by (simp add: handleQuickAdd_def Let_def)
      show ?thesis using r Some by (simp add: eq reset_idle)
    qed
    with busy have "\<exists>w1. quick_add_busy (nid element) (nid button) (document w1) \<and> effects w1 = effects w \<and>
          (case addToCart env variantId (Num 1) w1 of
             (None, w2) \<Rightarrow>
               handleQuickAdd env element w =
                 emit (SetTimeout (ResetQuickAdd (nid element) (nid button)) 1000) w2
           | (Some err, w2) \<Rightarrow>
               effects (handleQuickAdd env element w) =
                 effects w2 @ [ConsoleError ''Quick add error:'' (Some err)] \<and>
               quick_add_idle (nid element) (nid button) (document (handleQuickAdd env element w)))"
      by (intro exI[of _ ?w1]) simp }
  with noop timer show ?thesis by blast
qed

theorem handleQuickAdd_busy_witness:
  "node_of (nid quick_add_element) (document example_world) = Some quick_add_element \<and>
   getAttribute quick_add_element ''data-id'' = Some ''123'' \<and>
   element_querySelector [Tag ''button''] quick_add_element = Some (Element 9 ''button'' [] None ''Add'' []) \<and>
   (\<exists>w1. quick_add_busy 8 9 (document w1) \<and> effects w1 = effects example_world \<and>
      (case addToCart env_status_422 ''123'' (Num 1) w1 of
         (None, w2) \<Rightarrow>
           handleQuickAdd env_status_422 quick_add_element example_world =
             emit (SetTimeout (ResetQuickAdd 8 9) 1000) w2
       | (Some err, w2) \<Rightarrow>
           effects (handleQuickAdd env_status_422 quick_add_element example_world) =
             effects w2 @ [ConsoleError ''Quick add error:'' (Some err)] \<and>
           quick_add_idle 8 9 (document (handleQuickAdd env_status_422 quick_add_element example_world)))) \<and>
   quick_add_idle 8 9 (document (run_callback (ResetQuickAdd 8 9) example_world))"
proof -
  have a: "node_of (nid quick_add_element) (document example_world) = Some quick_add_element"
    by (simp add: node_of_def quick_add_element_def example_world_def example_page_def)
  have b: "getAttribute quick_add_element ''data-id'' = Some ''123''"
    by (simp add: quick_add_element_def getAttribute_def)
  have c: "element_querySelector [Tag ''button''] quick_add_element = Some (Element 9 ''button'' [] None ''Add'' [])"
    by (simp add: quick_add_element_def element_querySelector_def matches_compound_def)
  have d: "nid quick_add_element = 8" by (simp add: quick_add_element_def)
  from handleQuickAdd_busy[OF a, where variantId = "''123''" and env = env_status_422
         and button = "Element 9 ''button'' [] None ''Add'' []" and u = example_world]
       a b c
  show ?thesis by (simp add: d cong: prod.case_cong option.case_cong)
qed

section \<open>The quantity of a quick add\<close>



end
